theory Spec2Isabelle
  imports Main "HOL-Library.AList" "HOL-Library.Monad_Syntax" "HOL-Library.Sublist"
begin

section \<open>Domain models (app/models.py)\<close>

text \<open>
  The pydantic models of \<^verbatim>\<open>app/models.py\<close> are records, the string enums are
  datatypes. A \<^verbatim>\<open>datetime\<close> is an opaque time stamp; nothing below computes with it.
  Field names carry a prefix where two models share a field name.
\<close>

datatype ComponentStatusValue =
  OPERATIONAL | DEGRADED_PERFORMANCE | PARTIAL_OUTAGE | MAJOR_OUTAGE | UNDER_MAINTENANCE

datatype IncidentImpact = NONE | MINOR | MAJOR | CRITICAL

datatype IncidentStatus = INVESTIGATING | IDENTIFIED | MONITORING | RESOLVED | POSTMORTEM

type_synonym datetime = int

record ComponentStatus =
  cs_id :: string
  cs_name :: string
  cs_status :: ComponentStatusValue
  cs_created_at :: "datetime option"
  cs_updated_at :: "datetime option"

record IncidentUpdate =
  iu_id :: string
  iu_status :: IncidentStatus
  iu_body :: string
  iu_created_at :: datetime
  iu_updated_at :: "datetime option"

record Incident =
  inc_id :: string
  inc_name :: string
  inc_status :: IncidentStatus
  inc_impact :: IncidentImpact
  inc_created_at :: datetime
  inc_updated_at :: "datetime option"
  inc_resolved_at :: "datetime option"
  incident_updates :: "IncidentUpdate list"

record StatusEvent =
  provider :: string
  incident :: Incident
  event_type :: string
  detected_at :: datetime

record StatusSummary =
  sm_provider :: string
  status_description :: string
  components :: "ComponentStatus list"
  active_incidents :: "Incident list"
  last_checked :: "datetime option"

section \<open>Event bus (app/event\_bus.py)\<close>

subsection \<open>The bounded queue of a subscriber\<close>

text \<open>
  \<^verbatim>\<open>asyncio.Queue(maxsize)\<close> of the standard library: a FIFO of at most \<open>maxsize\<close>
  items, unbounded when \<open>maxsize \<le> 0\<close>. \<^verbatim>\<open>put_nowait\<close> raises \<^verbatim>\<open>QueueFull\<close> on a
  full queue, \<^verbatim>\<open>get_nowait\<close> raises \<^verbatim>\<open>QueueEmpty\<close> on an empty one and otherwise
  removes the oldest item.
\<close>

datatype exn = QueueFull | QueueEmpty | HTTPError | HTTPStatusError | JSONError | PyError

record 'a Queue =
  maxsize :: int
  items :: "'a list"

definition Queue :: "int \<Rightarrow> 'a Queue" where
  "Queue n = \<lparr>maxsize = n, items = []\<rparr>"

definition full :: "'a Queue \<Rightarrow> bool" where
  "full q = (if maxsize q \<le> 0 then False else maxsize q \<le> int (length (items q)))"

definition put_nowait :: "'a \<Rightarrow> 'a Queue \<Rightarrow> exn + 'a Queue" where
  "put_nowait x q = (if full q then Inl QueueFull else Inr (q\<lparr>items := items q @ [x]\<rparr>))"

definition get_nowait :: "'a Queue \<Rightarrow> exn + ('a \<times> 'a Queue)" where
  "get_nowait q = (case items q of [] \<Rightarrow> Inl QueueEmpty | x # xs \<Rightarrow> Inr (x, q\<lparr>items := xs\<rparr>))"

subsection \<open>Subscription\<close>

text \<open>
  A callback is code of the subscriber: all the bus sees of one call is whether it
  returned or raised an \<^verbatim>\<open>Exception\<close>.
\<close>

datatype cb_outcome = Returned | Raised

datatype log_entry = DroppedOldest string | CallbackFailed string

record Subscription =
  sub_id :: string
  queue :: "StatusEvent Queue"
  callback :: "(StatusEvent \<Rightarrow> cb_outcome) option"

definition Subscription :: "string \<Rightarrow> (StatusEvent \<Rightarrow> cb_outcome) option \<Rightarrow> int \<Rightarrow> Subscription" where
  \<comment> \<open>\<^verbatim>\<open>__init__\<close>; the first argument is the value \<^verbatim>\<open>uuid4().hex\<close> returns.\<close>
  "Subscription uuid cb n = \<lparr>sub_id = uuid, queue = Queue n, callback = cb\<rparr>"

text \<open>
  The result of \<^verbatim>\<open>deliver\<close>: the subscription afterwards, the exception that left
  the coroutine (if any) and the log lines written.
\<close>

type_synonym deliver_result = "Subscription \<times> exn option \<times> log_entry list"

definition fire_callback :: "Subscription \<Rightarrow> StatusEvent \<Rightarrow> log_entry list" where
  \<comment> \<open>lines 47 to 51: the callback's exception is caught and logged\<close>
  "fire_callback sub event =
     (case callback sub of
        None \<Rightarrow> []
      | Some cb \<Rightarrow> (case cb event of Returned \<Rightarrow> [] | Raised \<Rightarrow> [CallbackFailed (sub_id sub)]))"

definition deliver :: "Subscription \<Rightarrow> StatusEvent \<Rightarrow> deliver_result" where
  "deliver sub event =
     (case put_nowait event (queue sub) of
        Inr q \<Rightarrow> (sub\<lparr>queue := q\<rparr>, None, fire_callback sub event)
      | Inl _ \<Rightarrow>
          (let q1 = (case get_nowait (queue sub) of Inl _ \<Rightarrow> queue sub | Inr (_, q') \<Rightarrow> q')
           in case put_nowait event q1 of
                Inl e \<Rightarrow> (sub\<lparr>queue := q1\<rparr>, Some e, [])
              | Inr q2 \<Rightarrow>
                  (sub\<lparr>queue := q2\<rparr>, None, DroppedOldest (sub_id sub) # fire_callback sub event)))"

text \<open>Several events delivered in a row to a subscriber that consumes nothing.\<close>

fun deliver_all :: "Subscription \<Rightarrow> StatusEvent list \<Rightarrow> Subscription" where
  "deliver_all sub [] = sub"
| "deliver_all sub (e # es) = deliver_all (fst (deliver sub e)) es"

subsection \<open>EventBus\<close>

text \<open>
  \<^verbatim>\<open>_subscribers\<close> is a dict from subscription id to subscription, kept here as an
  association list in insertion order. \<^verbatim>\<open>asyncio.gather\<close> with
  \<^verbatim>\<open>return_exceptions=True\<close> hands the exceptions of its coroutines back as results
  and raises none of them. Every coroutine of \<^verbatim>\<open>deliver\<close> touches its queue before its
  first suspension point, so the queues are filled in the snapshot's order.
\<close>

type_synonym EventBus = "(string \<times> Subscription) list"

definition EventBus :: EventBus where
  "EventBus = []"

definition subscribe ::
  "string \<Rightarrow> (StatusEvent \<Rightarrow> cb_outcome) option \<Rightarrow> int \<Rightarrow> EventBus \<Rightarrow> Subscription \<times> EventBus" where
  "subscribe uuid cb n bus =
     (let sub = Subscription uuid cb n in (sub, AList.update (sub_id sub) sub bus))"

definition unsubscribe :: "string \<Rightarrow> EventBus \<Rightarrow> EventBus" where
  "unsubscribe subscription_id bus = AList.delete subscription_id bus"

definition gather :: "bool \<Rightarrow> exn option list \<Rightarrow> exn option" where
  "gather return_exceptions results =
     (if return_exceptions then None
      else (case filter (\<lambda>r. r \<noteq> None) results of [] \<Rightarrow> None | r # _ \<Rightarrow> r))"

text \<open>
  \<^verbatim>\<open>publish\<close> returns the bus afterwards, the exception it raises (if any) and the
  log lines of the deliveries.
\<close>

definition publish :: "StatusEvent \<Rightarrow> EventBus \<Rightarrow> EventBus \<times> exn option \<times> log_entry list" where
  "publish event bus =
     (let subs = map snd bus
      in if subs = [] then (bus, None, [])
         else (let results = map (\<lambda>sub. deliver sub event) subs
               in (zip (map fst bus) (map fst results),
                   gather True (map (\<lambda>r. fst (snd r)) results),
                   concat (map (\<lambda>r. snd (snd r)) results))))"

definition subscriber_count :: "EventBus \<Rightarrow> nat" where
  "subscriber_count bus = length bus"

subsection \<open>Histories of bus operations\<close>

text \<open>
  \<^verbatim>\<open>stream\<close> subscribes, then takes one event after the other from its queue with
  \<^verbatim>\<open>await sub.queue.get()\<close> and unsubscribes when it ends. Taking from an empty queue
  waits and changes nothing.
\<close>

definition consume :: "Subscription \<Rightarrow> Subscription" where
  "consume sub = (case get_nowait (queue sub) of Inl _ \<Rightarrow> sub | Inr (_, q) \<Rightarrow> sub\<lparr>queue := q\<rparr>)"

datatype bus_op =
  Subscribe string "(StatusEvent \<Rightarrow> cb_outcome) option" int
| Unsubscribe string
| Publish StatusEvent
| Consume string

fun bus_step :: "bus_op \<Rightarrow> EventBus \<Rightarrow> EventBus" where
  "bus_step (Subscribe uuid cb n) bus = snd (subscribe uuid cb n bus)"
| "bus_step (Unsubscribe k) bus = unsubscribe k bus"
| "bus_step (Publish event) bus = fst (publish event bus)"
| "bus_step (Consume k) bus = AList.map_entry k consume bus"

fun run_bus :: "bus_op list \<Rightarrow> EventBus \<Rightarrow> EventBus" where
  "run_bus [] bus = bus"
| "run_bus (op # ops) bus = run_bus ops (bus_step op bus)"

fun published_in :: "bus_op list \<Rightarrow> StatusEvent list" where
  "published_in [] = []"
| "published_in (Publish event # ops) = event # published_in ops"
| "published_in (_ # ops) = published_in ops"

text \<open>The queue of a subscription respects its bound (every queue built by the bus does).\<close>

definition queue_ok :: "Subscription \<Rightarrow> bool" where
  "queue_ok sub = (maxsize (queue sub) \<le> 0 \<or> int (length (items (queue sub))) \<le> maxsize (queue sub))"

text \<open>
  Whatever the subscription filed under \<open>k\<close> holds in its queue is taken, in order,
  from the events \<open>evs\<close>.
\<close>

definition queued_from :: "EventBus \<Rightarrow> string \<Rightarrow> StatusEvent list \<Rightarrow> bool" where
  "queued_from bus k evs = (\<forall>sub. map_of bus k = Some sub \<longrightarrow> subseq (items (queue sub)) evs)"

section \<open>Status poller (app/monitor.py)\<close>

subsection \<open>JSON values and the Python operations applied to them\<close>

text \<open>
  What \<^verbatim>\<open>resp.json()\<close> returns: \<^verbatim>\<open>None\<close>, a bool, an int, a float (a finite double
  \<open>m * 2 ^ e\<close>, kept as mantissa and exponent), a str, a list or a dict (its items
  in order, keys distinct).
\<close>

datatype json =
  JNull | JBool bool | JInt int | JFloat int int | JStr string
| JArr "json list" | JObj "(string \<times> json) list"

fun py_truthy :: "json \<Rightarrow> bool" where
  "py_truthy JNull = False"
| "py_truthy (JBool b) = b"
| "py_truthy (JInt i) = (i \<noteq> 0)"
| "py_truthy (JFloat m e) = (m \<noteq> 0)"
| "py_truthy (JStr s) = (s \<noteq> [])"
| "py_truthy (JArr xs) = (xs \<noteq> [])"
| "py_truthy (JObj kvs) = (kvs \<noteq> [])"

text \<open>
  \<^verbatim>\<open>for x in v\<close>: a list yields its elements, a str its characters, a dict its keys;
  anything else raises \<^verbatim>\<open>TypeError\<close>.
\<close>

fun py_iter :: "json \<Rightarrow> exn + json list" where
  "py_iter (JArr xs) = Inr xs"
| "py_iter (JStr s) = Inr (map (\<lambda>c. JStr [c]) s)"
| "py_iter (JObj kvs) = Inr (map (\<lambda>kv. JStr (fst kv)) kvs)"
| "py_iter _ = Inl PyError"

text \<open>
  \<^verbatim>\<open>v.get(key, default)\<close> exists on a dict only (\<^verbatim>\<open>AttributeError\<close> otherwise);
  \<^verbatim>\<open>v[key]\<close> with a str key raises \<^verbatim>\<open>KeyError\<close> on a dict without the key and
  \<^verbatim>\<open>TypeError\<close> on everything that is not a dict.
\<close>

fun py_get :: "json \<Rightarrow> string \<Rightarrow> json \<Rightarrow> exn + json" where
  "py_get (JObj kvs) key dflt = Inr (case map_of kvs key of None \<Rightarrow> dflt | Some v \<Rightarrow> v)"
| "py_get _ key dflt = Inl PyError"

fun py_subscript :: "json \<Rightarrow> string \<Rightarrow> exn + json" where
  "py_subscript (JObj kvs) key = (case map_of kvs key of None \<Rightarrow> Inl PyError | Some v \<Rightarrow> Inr v)"
| "py_subscript _ key = Inl PyError"

text \<open>
  Inside a \<^verbatim>\<open>try\<close> block whose handler treats every exception alike, an exception is
  \<open>None\<close>.
\<close>

definition attempt :: "exn + 'a \<Rightarrow> 'a option" where
  "attempt r = (case r of Inl _ \<Rightarrow> None | Inr v \<Rightarrow> Some v)"

text \<open>The enum constructors: the member with that value, \<^verbatim>\<open>ValueError\<close> otherwise.\<close>

fun IncidentStatus_of :: "json \<Rightarrow> IncidentStatus option" where
  "IncidentStatus_of (JStr s) =
     (if s = ''investigating'' then Some INVESTIGATING
      else if s = ''identified'' then Some IDENTIFIED
      else if s = ''monitoring'' then Some MONITORING
      else if s = ''resolved'' then Some RESOLVED
      else if s = ''postmortem'' then Some POSTMORTEM
      else None)"
| "IncidentStatus_of _ = None"

fun IncidentImpact_of :: "json \<Rightarrow> IncidentImpact option" where
  "IncidentImpact_of (JStr s) =
     (if s = ''none'' then Some NONE
      else if s = ''minor'' then Some MINOR
      else if s = ''major'' then Some MAJOR
      else if s = ''critical'' then Some CRITICAL
      else None)"
| "IncidentImpact_of _ = None"

fun ComponentStatusValue_of :: "json \<Rightarrow> ComponentStatusValue option" where
  "ComponentStatusValue_of (JStr s) =
     (if s = ''operational'' then Some OPERATIONAL
      else if s = ''degraded_performance'' then Some DEGRADED_PERFORMANCE
      else if s = ''partial_outage'' then Some PARTIAL_OUTAGE
      else if s = ''major_outage'' then Some MAJOR_OUTAGE
      else if s = ''under_maintenance'' then Some UNDER_MAINTENANCE
      else None)"
| "ComponentStatusValue_of _ = None"

text \<open>
  The field validation of pydantic: a \<^verbatim>\<open>str\<close> field takes a str only; what a
  \<^verbatim>\<open>datetime\<close> field accepts is pydantic's business and a parameter here; an
  \<^verbatim>\<open>Optional[datetime]\<close> field takes \<^verbatim>\<open>None\<close> as well.
\<close>

fun str_field :: "json \<Rightarrow> string option" where
  "str_field (JStr s) = Some s"
| "str_field _ = None"

definition optional_field :: "(json \<Rightarrow> datetime option) \<Rightarrow> json \<Rightarrow> datetime option option" where
  "optional_field dt v = (if v = JNull then Some None else map_option Some (dt v))"

subsection \<open>The library functions the poller calls\<close>

text \<open>
  \<^verbatim>\<open>hashlib.sha256(..).hexdigest()\<close>, the JSON decoder behind \<^verbatim>\<open>resp.json()\<close>
  (\<open>None\<close> when it raises) and pydantic's datetime validation are parameters of the
  model: every theorem holds whatever they compute.
\<close>

record Library =
  sha256_hexdigest :: "string \<Rightarrow> string"
  json_loads :: "string \<Rightarrow> json option"
  validate_datetime :: "json \<Rightarrow> datetime option"

subsection \<open>ProviderConfig\<close>

text \<open>
  \<^verbatim>\<open>poll_interval_seconds\<close> only sets the length of the sleep between two ticks and
  is left out.
\<close>

record ProviderConfig =
  cfg_name :: string
  base_url :: string

definition rstrip_slash :: "string \<Rightarrow> string" where
  "rstrip_slash s = rev (dropWhile (\<lambda>c. c = CHR ''/'') (rev s))"

definition ProviderConfig :: "string \<Rightarrow> string \<Rightarrow> ProviderConfig" where
  "ProviderConfig n url = \<lparr>cfg_name = n, base_url = rstrip_slash url\<rparr>"

definition incidents_url :: "ProviderConfig \<Rightarrow> string" where
  "incidents_url cfg = base_url cfg @ ''/incidents.json''"

definition summary_url :: "ProviderConfig \<Rightarrow> string" where
  "summary_url cfg = base_url cfg @ ''/summary.json''"

subsection \<open>The state of one StatusPageMonitor\<close>

text \<open>
  A snapshot is the dict from incident id to incident that \<^verbatim>\<open>_parse_incidents\<close>
  builds, in insertion order. \<^verbatim>\<open>_known_update_ids\<close> is one set of update ids for the
  whole monitor.
\<close>

type_synonym snapshot = "(string \<times> Incident) list"

record StatusPageMonitor =
  config :: ProviderConfig
  etag :: "string option"
  last_modified :: "string option"
  last_hash :: "string option"
  known_incidents :: snapshot
  known_update_ids :: "string set"
  summary :: "StatusSummary option"
  running :: bool

definition StatusPageMonitor :: "ProviderConfig \<Rightarrow> StatusPageMonitor" where
  "StatusPageMonitor cfg =
     \<lparr>config = cfg, etag = None, last_modified = None, last_hash = None,
      known_incidents = [], known_update_ids = {}, summary = None, running = False\<rparr>"

subsection \<open>\_parse\_incidents\<close>

definition parse_update :: "(json \<Rightarrow> datetime option) \<Rightarrow> json \<Rightarrow> IncidentUpdate option" where
  "parse_update dt u = do {
     uid \<leftarrow> attempt (py_subscript u ''id'');
     st_raw \<leftarrow> attempt (py_get u ''status'' (JStr ''investigating''));
     st \<leftarrow> IncidentStatus_of st_raw;
     body_raw \<leftarrow> attempt (py_get u ''body'' (JStr ''''));
     created_raw \<leftarrow> attempt (py_subscript u ''created_at'');
     updated_raw \<leftarrow> attempt (py_get u ''updated_at'' JNull);
     uid_s \<leftarrow> str_field uid;
     body_s \<leftarrow> str_field (if py_truthy body_raw then body_raw else JStr '''');
     created \<leftarrow> dt created_raw;
     updated \<leftarrow> optional_field dt updated_raw;
     Some \<lparr>iu_id = uid_s, iu_status = st, iu_body = body_s,
           iu_created_at = created, iu_updated_at = updated\<rparr>
   }"

fun parse_updates :: "(json \<Rightarrow> datetime option) \<Rightarrow> json list \<Rightarrow> IncidentUpdate list option" where
  "parse_updates dt [] = Some []"
| "parse_updates dt (u # us) = do {
     x \<leftarrow> parse_update dt u;
     xs \<leftarrow> parse_updates dt us;
     Some (x # xs)
   }"

text \<open>The body of the \<^verbatim>\<open>try\<close> block for one raw incident; \<open>None\<close> when it raises.\<close>

definition parse_incident :: "(json \<Rightarrow> datetime option) \<Rightarrow> json \<Rightarrow> Incident option" where
  "parse_incident dt item = do {
     raw_updates \<leftarrow> attempt (py_get item ''incident_updates'' (JArr []));
     us \<leftarrow> attempt (py_iter raw_updates);
     updates \<leftarrow> parse_updates dt us;
     iid \<leftarrow> attempt (py_subscript item ''id'');
     nm \<leftarrow> attempt (py_subscript item ''name'');
     st_raw \<leftarrow> attempt (py_get item ''status'' (JStr ''investigating''));
     st \<leftarrow> IncidentStatus_of st_raw;
     imp_raw \<leftarrow> attempt (py_get item ''impact'' (JStr ''none''));
     imp \<leftarrow> IncidentImpact_of imp_raw;
     created_raw \<leftarrow> attempt (py_subscript item ''created_at'');
     updated_raw \<leftarrow> attempt (py_get item ''updated_at'' JNull);
     resolved_raw \<leftarrow> attempt (py_get item ''resolved_at'' JNull);
     iid_s \<leftarrow> str_field iid;
     nm_s \<leftarrow> str_field nm;
     created \<leftarrow> dt created_raw;
     updated \<leftarrow> optional_field dt updated_raw;
     resolved \<leftarrow> optional_field dt resolved_raw;
     Some \<lparr>inc_id = iid_s, inc_name = nm_s, inc_status = st, inc_impact = imp,
           inc_created_at = created, inc_updated_at = updated, inc_resolved_at = resolved,
           incident_updates = updates\<rparr>
   }"

text \<open>
  The loop over the raw incidents. An incident that fails to parse is logged and
  skipped; the log call itself evaluates \<^verbatim>\<open>item.get("id", "?")\<close>, which raises out of
  the handler when the item is not a dict.
\<close>

fun parse_items :: "(json \<Rightarrow> datetime option) \<Rightarrow> json list \<Rightarrow> snapshot \<Rightarrow> exn + snapshot" where
  "parse_items dt [] result = Inr result"
| "parse_items dt (item # rest) result =
     (case parse_incident dt item of
        Some inc \<Rightarrow> parse_items dt rest (AList.update (inc_id inc) inc result)
      | None \<Rightarrow>
          (case py_get item ''id'' (JStr ''?'') of
             Inl e \<Rightarrow> Inl e
           | Inr _ \<Rightarrow> parse_items dt rest result))"

definition parse_incidents :: "(json \<Rightarrow> datetime option) \<Rightarrow> json \<Rightarrow> exn + snapshot" where
  "parse_incidents dt raw =
     (case py_iter raw of Inl e \<Rightarrow> Inl e | Inr raw_items \<Rightarrow> parse_items dt raw_items [])"

subsection \<open>\_diff\_and\_publish\<close>

definition update_ids :: "Incident \<Rightarrow> string set" where
  \<comment> \<open>\<^verbatim>\<open>{u.id for u in incident.incident_updates}\<close>\<close>
  "update_ids inc = set (map iu_id (incident_updates inc))"

definition mk_event :: "string \<Rightarrow> Incident \<Rightarrow> string \<Rightarrow> datetime \<Rightarrow> StatusEvent" where
  "mk_event p inc ty now = \<lparr>provider = p, incident = inc, event_type = ty, detected_at = now\<rparr>"

text \<open>
  The first loop, over \<^verbatim>\<open>current.items()\<close>. It returns \<^verbatim>\<open>_known_update_ids\<close> as the
  loop leaves it and the events handed to \<^verbatim>\<open>event_bus.publish\<close>, in call order.
  \<^verbatim>\<open>_known_incidents\<close> is not assigned before both loops are over.
\<close>

fun diff_current ::
  "string \<Rightarrow> datetime \<Rightarrow> snapshot \<Rightarrow> snapshot \<Rightarrow> string set \<Rightarrow> string set \<times> StatusEvent list" where
  "diff_current p now known [] ids = (ids, [])"
| "diff_current p now known ((k, inc) # rest) ids =
     (let current_update_ids = update_ids inc
      in if map_of known k = None then
           (let r = diff_current p now known rest (ids \<union> current_update_ids)
            in (fst r, mk_event p inc ''new_incident'' now # snd r))
         else
           (let new_update_ids = current_update_ids - ids
            in if new_update_ids \<noteq> {} then
                 (let r = diff_current p now known rest (ids \<union> new_update_ids)
                  in (fst r, mk_event p inc ''incident_update'' now # snd r))
               else diff_current p now known rest ids))"

text \<open>The second loop, over \<^verbatim>\<open>self._known_incidents.items()\<close>.\<close>

fun diff_resolved :: "string \<Rightarrow> datetime \<Rightarrow> snapshot \<Rightarrow> snapshot \<Rightarrow> StatusEvent list" where
  "diff_resolved p now current [] = []"
| "diff_resolved p now current ((k, old_incident) # rest) =
     (case map_of current k of
        None \<Rightarrow> diff_resolved p now current rest
      | Some new_incident \<Rightarrow>
          if inc_status old_incident \<noteq> RESOLVED \<and> inc_status new_incident = RESOLVED
          then mk_event p new_incident ''resolved'' now # diff_resolved p now current rest
          else diff_resolved p now current rest)"

definition diff_and_publish ::
  "datetime \<Rightarrow> snapshot \<Rightarrow> StatusPageMonitor \<Rightarrow> StatusPageMonitor \<times> StatusEvent list" where
  "diff_and_publish now current m =
     (let p = cfg_name (config m);
          r = diff_current p now (known_incidents m) current (known_update_ids m);
          resolved_events = diff_resolved p now current (known_incidents m)
      in (m\<lparr>known_update_ids := fst r, known_incidents := current\<rparr>,
          snd r @ resolved_events))"

subsection \<open>HTTP\<close>

text \<open>
  What one tick sees of the network: the answer to a GET of a URL with request
  headers (an exception of the transport, or a response), and the two clock
  readings. \<^verbatim>\<open>raise_for_status\<close> of httpx raises for every status outside 2xx.
\<close>

record Response =
  status_code :: int
  headers :: "string \<Rightarrow> string option"
  content :: string

type_synonym request = "string \<times> (string \<times> string) list"

record TickEnv =
  http_get :: "string \<Rightarrow> (string \<times> string) list \<Rightarrow> exn + Response"
  now_diff :: datetime
  now_summary :: datetime

definition raise_for_status :: "Response \<Rightarrow> exn option" where
  "raise_for_status resp =
     (if 200 \<le> status_code resp \<and> status_code resp \<le> 299 then None else Some HTTPStatusError)"

subsection \<open>\_fetch\_summary\<close>

definition parse_component :: "(json \<Rightarrow> datetime option) \<Rightarrow> json \<Rightarrow> ComponentStatus option" where
  "parse_component dt c = do {
     cid \<leftarrow> attempt (py_subscript c ''id'');
     nm \<leftarrow> attempt (py_subscript c ''name'');
     st_raw \<leftarrow> attempt (py_get c ''status'' (JStr ''operational''));
     st \<leftarrow> ComponentStatusValue_of st_raw;
     created_raw \<leftarrow> attempt (py_get c ''created_at'' JNull);
     updated_raw \<leftarrow> attempt (py_get c ''updated_at'' JNull);
     cid_s \<leftarrow> str_field cid;
     nm_s \<leftarrow> str_field nm;
     created \<leftarrow> optional_field dt created_raw;
     updated \<leftarrow> optional_field dt updated_raw;
     Some \<lparr>cs_id = cid_s, cs_name = nm_s, cs_status = st,
           cs_created_at = created, cs_updated_at = updated\<rparr>
   }"

text \<open>
  The \<^verbatim>\<open>try\<close> block of \<^verbatim>\<open>_fetch_summary\<close> from the response on: the summary it
  assigns, or \<open>None\<close> when anything in it raises.
\<close>

definition build_summary ::
  "Library \<Rightarrow> datetime \<Rightarrow> StatusPageMonitor \<Rightarrow> Response \<Rightarrow> StatusSummary option" where
  "build_summary lib now m resp = do {
     _ \<leftarrow> (case raise_for_status resp of None \<Rightarrow> Some () | Some _ \<Rightarrow> None);
     data \<leftarrow> json_loads lib (content resp);
     raw_components \<leftarrow> attempt (py_get data ''components'' (JArr []));
     cs \<leftarrow> attempt (py_iter raw_components);
     status_info \<leftarrow> attempt (py_get data ''status'' (JObj []));
     description \<leftarrow> attempt (py_get status_info ''description'' (JStr ''Unknown''));
     description_s \<leftarrow> str_field description;
     Some \<lparr>sm_provider = cfg_name (config m),
           status_description = description_s,
           components = List.map_filter (parse_component (validate_datetime lib)) cs,
           active_incidents = filter (\<lambda>inc. inc_status inc \<noteq> RESOLVED) (map snd (known_incidents m)),
           last_checked = Some now\<rparr>
   }"

text \<open>
  \<^verbatim>\<open>_fetch_summary\<close> returns the monitor afterwards and the request it sent. Every
  exception is caught and logged.
\<close>

definition fetch_summary ::
  "Library \<Rightarrow> TickEnv \<Rightarrow> StatusPageMonitor \<Rightarrow> StatusPageMonitor \<times> request list" where
  "fetch_summary lib env m =
     (let url = summary_url (config m)
      in case http_get env url [] of
           Inl _ \<Rightarrow> (m, [(url, [])])
         | Inr resp \<Rightarrow>
             (case build_summary lib (now_summary env) m resp of
                None \<Rightarrow> (m, [(url, [])])
              | Some s \<Rightarrow> (m\<lparr>summary := Some s\<rparr>, [(url, [])])))"

subsection \<open>\_tick\<close>

text \<open>
  One poll cycle. The result holds the exception that leaves \<^verbatim>\<open>_tick\<close> (if any), the
  monitor as the tick leaves it, the events published and the requests sent, both
  in order.
\<close>

record TickResult =
  raised :: "exn option"
  monitor :: StatusPageMonitor
  published :: "StatusEvent list"
  requests :: "request list"

definition conditional_headers :: "StatusPageMonitor \<Rightarrow> (string \<times> string) list" where
  "conditional_headers m =
     (case etag m of None \<Rightarrow> [] | Some t \<Rightarrow> if t = [] then [] else [(''If-None-Match'', t)])
     @ (case last_modified m of None \<Rightarrow> []
        | Some t \<Rightarrow> if t = [] then [] else [(''If-Modified-Since'', t)])"

definition tick :: "Library \<Rightarrow> TickEnv \<Rightarrow> StatusPageMonitor \<Rightarrow> TickResult" where
  "tick lib env m =
     (let hdrs = conditional_headers m;
          req = (incidents_url (config m), hdrs)
      in case http_get env (incidents_url (config m)) hdrs of
           Inl e \<Rightarrow> \<lparr>raised = Some e, monitor = m, published = [], requests = [req]\<rparr>
         | Inr resp \<Rightarrow>
             if status_code resp = 304 then
               \<lparr>raised = None, monitor = m, published = [], requests = [req]\<rparr>
             else
               (case raise_for_status resp of
                  Some e \<Rightarrow> \<lparr>raised = Some e, monitor = m, published = [], requests = [req]\<rparr>
                | None \<Rightarrow>
                    (let m1 = m\<lparr>etag := headers resp ''etag'',
                                last_modified := headers resp ''last-modified''\<rparr>;
                         body_hash = sha256_hexdigest lib (content resp)
                     in if Some body_hash = last_hash m1 then
                          \<lparr>raised = None, monitor = m1, published = [], requests = [req]\<rparr>
                        else
                          (let m2 = m1\<lparr>last_hash := Some body_hash\<rparr>
                           in case json_loads lib (content resp) of
                                None \<Rightarrow>
                                  \<lparr>raised = Some JSONError, monitor = m2, published = [],
                                   requests = [req]\<rparr>
                              | Some data \<Rightarrow>
                                  (case py_get data ''incidents'' (JArr []) of
                                     Inl e \<Rightarrow>
                                       \<lparr>raised = Some e, monitor = m2, published = [],
                                        requests = [req]\<rparr>
                                   | Inr raw_incidents \<Rightarrow>
                                       (case parse_incidents (validate_datetime lib) raw_incidents of
                                          Inl e \<Rightarrow>
                                            \<lparr>raised = Some e, monitor = m2, published = [],
                                             requests = [req]\<rparr>
                                        | Inr current_incidents \<Rightarrow>
                                            (let d = diff_and_publish (now_diff env) current_incidents m2;
                                                 f = fetch_summary lib env (fst d)
                                             in \<lparr>raised = None, monitor = fst f, published = snd d,
                                                 requests = req # snd f\<rparr>)))))))"

subsection \<open>start\<close>

text \<open>
  The loop of \<^verbatim>\<open>start\<close>: while \<^verbatim>\<open>_running\<close>, one tick, whose exception is caught and
  logged, then a sleep. The loop runs as long as the monitor lives, so the model
  runs it over the environments of its ticks; with each goes whether \<^verbatim>\<open>stop\<close> was
  called before the loop tests the flag again.
\<close>

definition stop :: "StatusPageMonitor \<Rightarrow> StatusPageMonitor" where
  "stop m = m\<lparr>running := False\<rparr>"

fun run_loop ::
  "Library \<Rightarrow> (TickEnv \<times> bool) list \<Rightarrow> StatusPageMonitor \<Rightarrow> StatusPageMonitor \<times> TickResult list" where
  "run_loop lib [] m = (m, [])"
| "run_loop lib ((env, stop_called) # rest) m =
     (if \<not> running m then (m, [])
      else (let r = tick lib env m;
                m' = (if stop_called then stop (monitor r) else monitor r);
                rs = run_loop lib rest m'
            in (fst rs, r # snd rs)))"

definition start ::
  "Library \<Rightarrow> (TickEnv \<times> bool) list \<Rightarrow> StatusPageMonitor \<Rightarrow> StatusPageMonitor \<times> TickResult list" where
  "start lib envs m = run_loop lib envs (m\<lparr>running := True\<rparr>)"

section \<open>Notions used to state the properties\<close>

text \<open>
  A snapshot as \<^verbatim>\<open>_parse_incidents\<close> builds it: a dict (no key twice) that files every
  incident under its own id.
\<close>

definition wf_snapshot :: "snapshot \<Rightarrow> bool" where
  "wf_snapshot snap = (distinct (map fst snap) \<and> list_all (\<lambda>(k, inc). inc_id inc = k) snap)"

text \<open>The events of one type about one incident id, in the order published.\<close>

definition events_for :: "string \<Rightarrow> string \<Rightarrow> StatusEvent list \<Rightarrow> StatusEvent list" where
  "events_for ty k evs = filter (\<lambda>e. event_type e = ty \<and> inc_id (incident e) = k) evs"

definition update_ids_in :: "snapshot \<Rightarrow> string \<Rightarrow> string set" where
  "update_ids_in snap k = (case map_of snap k of None \<Rightarrow> {} | Some inc \<Rightarrow> update_ids inc)"

text \<open>
  The specification's per-incident known set: the update ids seen so far under one
  incident id, over the snapshots diffed so far.
\<close>

definition known_for :: "snapshot list \<Rightarrow> string \<Rightarrow> string set" where
  "known_for history k = \<Union> (set (map (\<lambda>snap. update_ids_in snap k) history))"

text \<open>All update ids of a snapshot, whatever incident they belong to.\<close>

definition all_update_ids :: "snapshot \<Rightarrow> string set" where
  "all_update_ids snap = \<Union> (set (map (\<lambda>kv. update_ids (snd kv)) snap))"

text \<open>
  The diffs of consecutive ticks: each tick brings its clock reading and its
  snapshot; the result lists the events of each tick.
\<close>

fun run_diffs :: "(datetime \<times> snapshot) list \<Rightarrow> StatusPageMonitor \<Rightarrow> StatusPageMonitor \<times> StatusEvent list list" where
  "run_diffs [] m = (m, [])"
| "run_diffs ((now, current) # rest) m =
     (let d = diff_and_publish now current m;
          r = run_diffs rest (fst d)
      in (fst r, snd d # snd r))"

subsection \<open>Sample data\<close>

definition sample_update :: "string \<Rightarrow> IncidentUpdate" where
  "sample_update uid =
     \<lparr>iu_id = uid, iu_status = INVESTIGATING, iu_body = '''', iu_created_at = 0, iu_updated_at = None\<rparr>"

definition sample_incident :: "string \<Rightarrow> IncidentStatus \<Rightarrow> string list \<Rightarrow> Incident" where
  "sample_incident k st uids =
     \<lparr>inc_id = k, inc_name = k, inc_status = st, inc_impact = NONE, inc_created_at = 0,
      inc_updated_at = None, inc_resolved_at = None, incident_updates = map sample_update uids\<rparr>"

definition sample_event :: "string \<Rightarrow> StatusEvent" where
  "sample_event k = mk_event ''P'' (sample_incident k INVESTIGATING []) ''new_incident'' 0"

definition sample_monitor :: StatusPageMonitor where
  "sample_monitor = StatusPageMonitor (ProviderConfig ''P'' ''https://status.example/api/v2/'')"

text \<open>The example scenarios of the specification.\<close>

definition scenario1 :: snapshot where
  "scenario1 = [(''INC1'', sample_incident ''INC1'' INVESTIGATING [''U1''])]"

definition scenario2 :: snapshot where
  "scenario2 = [(''INC1'', sample_incident ''INC1'' IDENTIFIED [''U1'', ''U2''])]"

definition scenario3_previous :: snapshot where
  "scenario3_previous = [(''INC1'', sample_incident ''INC1'' MONITORING [''U1'', ''U2''])]"

definition scenario3_current :: snapshot where
  "scenario3_current = [(''INC1'', sample_incident ''INC1'' RESOLVED [''U1'', ''U2'', ''U3''])]"

text \<open>
  Two incidents whose updates carry ids that are unique within each incident only:
  the second update of incident B has the id of the update of incident A.
\<close>

definition shared_id_previous :: snapshot where
  "shared_id_previous =
     [(''A'', sample_incident ''A'' INVESTIGATING [''u1'']),
      (''B'', sample_incident ''B'' INVESTIGATING [''v1''])]"

definition shared_id_current :: snapshot where
  "shared_id_current =
     [(''A'', sample_incident ''A'' INVESTIGATING [''u1'']),
      (''B'', sample_incident ''B'' IDENTIFIED [''v1'', ''u1''])]"

text \<open>
  A stand-in library (the body is its own digest, \<^verbatim>\<open>{}\<close> is the one text that
  decodes) and a network that answers every request with one response.
\<close>

definition sample_library :: Library where
  "sample_library =
     \<lparr>sha256_hexdigest = (\<lambda>body. body),
      json_loads = (\<lambda>body. if body = ''{}'' then Some (JObj []) else None),
      validate_datetime = (\<lambda>v. case v of JInt t \<Rightarrow> Some t | _ \<Rightarrow> None)\<rparr>"

definition sample_response :: "int \<Rightarrow> string \<Rightarrow> Response" where
  "sample_response code body =
     \<lparr>status_code = code,
      headers = (\<lambda>h. if h = ''etag'' then Some ''W/1'' else None),
      content = body\<rparr>"

definition sample_env :: "int \<Rightarrow> string \<Rightarrow> TickEnv" where
  "sample_env code body =
     \<lparr>http_get = (\<lambda>url hdrs. Inr (sample_response code body)), now_diff = 1, now_summary = 2\<rparr>"

definition sample_summary :: StatusSummary where
  "sample_summary =
     \<lparr>sm_provider = ''P'', status_description = ''All Systems Operational'', components = [],
      active_incidents = [], last_checked = Some 0\<rparr>"

text \<open>
  A bus with two subscribers that consume nothing: \<open>a\<close> has a queue of capacity 1 and
  a callback that raises on every event, \<open>b\<close> has capacity 2 and no callback. One
  event has been published, so the queue of \<open>a\<close> is full.
\<close>

definition sample_bus :: EventBus where
  "sample_bus =
     run_bus [Subscribe ''a'' (Some (\<lambda>event. Raised)) 1, Subscribe ''b'' None 2,
              Publish (sample_event ''1'')] EventBus"

section \<open>Drop-oldest backpressure\<close>

lemma deliver_items:
  assumes "0 < maxsize (queue sub)" and "int (length (items (queue sub))) \<le> maxsize (queue sub)"
  shows "items (queue (fst (deliver sub e))) =
           drop (length (items (queue sub) @ [e]) - nat (maxsize (queue sub))) (items (queue sub) @ [e])"
    and "maxsize (queue (fst (deliver sub e))) = maxsize (queue sub)"
  using assms
  by (auto simp: deliver_def put_nowait_def get_nowait_def full_def Let_def drop_Cons'
           split: list.splits sum.splits)

lemma keep_last_append:
  "drop (length (drop (length xs - n) xs @ ys) - n) (drop (length xs - n) xs @ ys)
     = drop (length (xs @ ys) - n) (xs @ ys)"
proof (cases "length xs \<le> n")
  case True
  then show ?thesis by simp
next
  case False
  then have "length ys + (length xs - n) = length xs + length ys - n"
    by arith
  with False show ?thesis by simp
qed

lemma deliver_all_items:
  assumes "0 < maxsize (queue sub)" and "int (length (items (queue sub))) \<le> maxsize (queue sub)"
  shows "maxsize (queue (deliver_all sub es)) = maxsize (queue sub)
       \<and> items (queue (deliver_all sub es)) =
           drop (length (items (queue sub) @ es) - nat (maxsize (queue sub))) (items (queue sub) @ es)"
  using assms
proof (induction es arbitrary: sub)
  case Nil
  then show ?case by simp
next
  case (Cons e es)
  let ?s = "fst (deliver sub e)"
  let ?n = "nat (maxsize (queue sub))"
  have m: "maxsize (queue ?s) = maxsize (queue sub)"
    using deliver_items(2) [OF Cons.prems] .
  have i: "items (queue ?s) =
      drop (length (items (queue sub) @ [e]) - ?n) (items (queue sub) @ [e])"
    using deliver_items(1) [OF Cons.prems] .
  have len: "int (length (items (queue ?s))) \<le> maxsize (queue ?s)"
    using Cons.prems by (simp add: i m)
  have pos: "0 < maxsize (queue ?s)"
    using Cons.prems by (simp add: m)
  have "items (queue (deliver_all ?s es)) =
      drop (length (items (queue ?s) @ es) - ?n) (items (queue ?s) @ es)"
    using Cons.IH [OF pos len] by (simp add: m)
  also have "\<dots> = drop (length ((items (queue sub) @ [e]) @ es) - ?n) ((items (queue sub) @ [e]) @ es)"
    unfolding i by (rule keep_last_append)
  finally show ?case
    using Cons.IH [OF pos len] by (simp add: m)
qed

text \<open>
  Claim C3. A subscriber whose queue has capacity \<open>N > 0\<close> and who consumes nothing
  never holds more than \<open>N\<close> events, and once more than \<open>N\<close> events have been
  delivered its queue is exactly the last \<open>N\<close> of them, in the order of publication.
\<close>

theorem C3_drop_oldest:
  assumes "0 < maxsize (queue sub)"
    and "int (length (items (queue sub))) \<le> maxsize (queue sub)"
  shows "int (length (items (queue (deliver_all sub es)))) \<le> maxsize (queue sub)
       \<and> (maxsize (queue sub) < int (length es) \<longrightarrow>
            items (queue (deliver_all sub es)) = drop (length es - nat (maxsize (queue sub))) es)"
proof -
  note r = deliver_all_items [OF assms, of es]
  have a: "int (length (items (queue (deliver_all sub es)))) \<le> maxsize (queue sub)"
    using assms by (simp add: r)
  have b: "items (queue (deliver_all sub es)) = drop (length es - nat (maxsize (queue sub))) es"
    if "maxsize (queue sub) < int (length es)"
    using that assms by (simp add: r)
  from a b show ?thesis by blast
qed


theorem C3_capacity_two_witness:
  "0 < maxsize (queue (Subscription ''s'' None 2))
   \<and> int (length (items (queue (Subscription ''s'' None 2)))) \<le> maxsize (queue (Subscription ''s'' None 2))
   \<and> items (queue (deliver_all (Subscription ''s'' None 2)
                     [sample_event ''1'', sample_event ''2'', sample_event ''3'']))
       = [sample_event ''2'', sample_event ''3'']"
  using C3_drop_oldest [of "Subscription ''s'' None 2"
                           "[sample_event ''1'', sample_event ''2'', sample_event ''3'']"]
  by (simp add: Subscription_def Queue_def)

section \<open>The diff of two snapshots\<close>

lemmas sample_defs = sample_monitor_def StatusPageMonitor_def ProviderConfig_def
  sample_incident_def sample_update_def mk_event_def

lemma diff_current_new:
  "map_of known k = None \<Longrightarrow>
   diff_current p now known ((k, inc) # rest) ids =
     (fst (diff_current p now known rest (ids \<union> update_ids inc)),
      mk_event p inc ''new_incident'' now
        # snd (diff_current p now known rest (ids \<union> update_ids inc)))"
  by (simp add: Let_def)

lemma diff_current_upd:
  assumes "map_of known k = Some old" and "update_ids inc - ids \<noteq> {}"
  shows "diff_current p now known ((k, inc) # rest) ids =
     (fst (diff_current p now known rest (ids \<union> update_ids inc)),
      mk_event p inc ''incident_update'' now
        # snd (diff_current p now known rest (ids \<union> update_ids inc)))"
proof -
  have "ids \<union> (update_ids inc - ids) = ids \<union> update_ids inc" by blast
  with assms show ?thesis
    by (simp add: Let_def)
qed

lemma diff_current_same:
  assumes "map_of known k = Some old" and "update_ids inc - ids = {}"
  shows "diff_current p now known ((k, inc) # rest) ids
     = diff_current p now known rest (ids \<union> update_ids inc)"
proof -
  from assms(2) have "ids \<union> update_ids inc = ids" by blast
  with assms show ?thesis
    by (simp add: Let_def)
qed

lemma all_update_ids_Cons:
  "all_update_ids ((k, inc) # rest) = update_ids inc \<union> all_update_ids rest"
  by (simp add: all_update_ids_def)

lemma all_update_ids_Nil: "all_update_ids [] = {}"
  by (simp add: all_update_ids_def)

lemma diff_current_cases:
  fixes inc :: Incident and known :: snapshot
  obtains "map_of known k = None"
  | old where "map_of known k = Some old" "update_ids inc - ids \<noteq> {}"
  | old where "map_of known k = Some old" "update_ids inc - ids = {}"
  by (cases "map_of known k") blast+

lemma diff_current_fst:
  "fst (diff_current p now known cur ids) = ids \<union> all_update_ids cur"
proof (induction cur arbitrary: ids)
  case Nil
  then show ?case by (simp add: all_update_ids_Nil)
next
  case (Cons a cur)
  obtain k inc where a: "a = (k, inc)" by (cases a)
  show ?case
      using diff_current_cases [where known = known and k = k and inc = inc and ids = ids]
  proof cases
    case 1
    show ?thesis
      unfolding a by (simp only: diff_current_new [OF 1] fst_conv Cons.IH all_update_ids_Cons Un_assoc)
  next
    case 2
    show ?thesis
      unfolding a by (simp only: diff_current_upd [OF 2] fst_conv Cons.IH all_update_ids_Cons Un_assoc)
  next
    case 3
    show ?thesis
      unfolding a by (simp only: diff_current_same [OF 3] fst_conv Cons.IH all_update_ids_Cons Un_assoc)
  qed
qed

lemma diff_current_append:
  "snd (diff_current p now known (pre @ rest) ids)
     = snd (diff_current p now known pre ids)
       @ snd (diff_current p now known rest (ids \<union> all_update_ids pre))"
proof (induction pre arbitrary: ids)
  case Nil
  then show ?case by (simp add: all_update_ids_Nil)
next
  case (Cons a pre)
  obtain k inc where a: "a = (k, inc)" by (cases a)
  show ?case
      using diff_current_cases [where known = known and k = k and inc = inc and ids = ids]
  proof cases
    case 1
    show ?thesis
      unfolding a
      by (simp only: append_Cons diff_current_new [OF 1] snd_conv Cons.IH all_update_ids_Cons Un_assoc)
  next
    case 2
    show ?thesis
      unfolding a
      by (simp only: append_Cons diff_current_upd [OF 2] snd_conv Cons.IH all_update_ids_Cons Un_assoc)
  next
    case 3
    show ?thesis
      unfolding a
      by (simp only: append_Cons diff_current_same [OF 3] snd_conv Cons.IH all_update_ids_Cons Un_assoc)
  qed
qed

lemma events_for_append:
  "events_for ty k (xs @ ys) = events_for ty k xs @ events_for ty k ys"
  by (simp add: events_for_def)

lemma events_for_Cons:
  "events_for ty k (e # es) =
     (if event_type e = ty \<and> inc_id (incident e) = k then e # events_for ty k es
      else events_for ty k es)"
  by (simp add: events_for_def)

lemma events_for_Nil: "events_for ty k [] = []"
  by (simp add: events_for_def)

lemma diff_current_other:
  "list_all (\<lambda>(k', inc). inc_id inc = k') cur \<Longrightarrow> k \<notin> fst ` set cur
     \<Longrightarrow> events_for ty k (snd (diff_current p now known cur ids)) = []"
  by (induction cur arbitrary: ids)
     (auto simp: Let_def events_for_Cons events_for_Nil mk_event_def)

lemma diff_current_not_resolved:
  "events_for ''resolved'' k (snd (diff_current p now known cur ids)) = []"
  by (induction cur arbitrary: ids)
     (auto simp: Let_def events_for_Cons events_for_Nil mk_event_def)

lemma diff_resolved_type:
  "ty \<noteq> ''resolved'' \<Longrightarrow> events_for ty k (diff_resolved p now cur known) = []"
  by (induction known)
     (auto simp: events_for_Cons events_for_Nil mk_event_def split: option.splits)

lemma diff_current_at:
  assumes "wf_snapshot (pre @ (k, inc) # post)"
  shows "events_for ty k (snd (diff_current p now known (pre @ (k, inc) # post) ids))
       = events_for ty k
           (if map_of known k = None then [mk_event p inc ''new_incident'' now]
            else if update_ids inc - (ids \<union> all_update_ids pre) \<noteq> {}
                 then [mk_event p inc ''incident_update'' now] else [])"
proof -
  from assms have d: "distinct (map fst pre @ k # map fst post)"
    and la: "list_all (\<lambda>(k', inc). inc_id inc = k') pre"
    and lb: "list_all (\<lambda>(k', inc). inc_id inc = k') post"
    by (simp_all add: wf_snapshot_def)
  from d have npre: "k \<notin> fst ` set pre" and npost: "k \<notin> fst ` set post" by auto
  note o1 = diff_current_other [OF la npre]
  note o2 = diff_current_other [OF lb npost]
  let ?K = "ids \<union> all_update_ids pre"
  have "events_for ty k (snd (diff_current p now known (pre @ (k, inc) # post) ids))
      = events_for ty k (snd (diff_current p now known ((k, inc) # post) ?K))"
    by (simp only: diff_current_append events_for_append o1 append_Nil)
  also have "\<dots> = events_for ty k
           (if map_of known k = None then [mk_event p inc ''new_incident'' now]
            else if update_ids inc - ?K \<noteq> {}
                 then [mk_event p inc ''incident_update'' now] else [])"
      using diff_current_cases [where known = known and k = k and inc = inc and ids = ?K]
  proof cases
    case 1
    show ?thesis
      by (simp add: diff_current_new [OF 1] events_for_Cons o2 events_for_Nil 1 del: diff_current.simps)
  next
    case 2
    show ?thesis
      using 2
      by (simp add: diff_current_upd [OF 2] events_for_Cons o2 events_for_Nil del: diff_current.simps)
  next
    case 3
    show ?thesis
      using 3
      by (simp add: diff_current_same [OF 3] o2 events_for_Nil del: diff_current.simps)
  qed
  finally show ?thesis .
qed

lemma wf_snapshot_lookup:
  assumes "list_all (\<lambda>(k', inc). inc_id inc = k') snap" and "map_of snap k = Some inc"
  shows "inc_id inc = k"
proof -
  from assms(2) have "(k, inc) \<in> set snap" by (rule map_of_SomeD)
  with assms(1) show ?thesis by (auto simp: list_all_iff)
qed

lemma wf_snapshot_split:
  assumes "wf_snapshot snap" and "map_of snap k = Some inc"
  obtains pre post where "snap = pre @ (k, inc) # post"
proof -
  from assms(2) have "(k, inc) \<in> set snap" by (rule map_of_SomeD)
  then show ?thesis using that by (auto dest: split_list)
qed

lemma wf_snapshot_at:
  assumes "wf_snapshot (pre @ (k, inc) # post)"
  shows "inc_id inc = k" and "map_of (pre @ (k, inc) # post) k = Some inc"
proof -
  from assms show "inc_id inc = k" by (simp add: wf_snapshot_def)
  from assms have "distinct (map fst (pre @ (k, inc) # post))" by (simp add: wf_snapshot_def)
  then show "map_of (pre @ (k, inc) # post) k = Some inc"
    by (intro map_of_is_SomeI) simp_all
qed

lemma diff_resolved_other:
  assumes "list_all (\<lambda>(k', inc). inc_id inc = k') current" and "k \<notin> fst ` set known"
  shows "events_for ty k (diff_resolved p now current known) = []"
  using assms(2)
proof (induction known)
  case Nil
  then show ?case by (simp add: events_for_Nil)
next
  case (Cons a known)
  obtain k' old where a: "a = (k', old)" by (cases a)
  from Cons.prems a have ne: "k' \<noteq> k" and rest: "k \<notin> fst ` set known" by auto
  have "inc_id new \<noteq> k" if "map_of current k' = Some new" for new
    using wf_snapshot_lookup [OF assms(1) that] ne by simp
  then show ?case
    unfolding a using Cons.IH [OF rest]
    by (auto simp: events_for_Cons mk_event_def split: option.splits)
qed

lemma diff_resolved_events:
  assumes "distinct (map fst known)" and "list_all (\<lambda>(k', inc). inc_id inc = k') current"
  shows "events_for ''resolved'' k (diff_resolved p now current known) =
     (case map_of known k of
        None \<Rightarrow> []
      | Some old \<Rightarrow>
          (case map_of current k of
             None \<Rightarrow> []
           | Some new \<Rightarrow>
               if inc_status old \<noteq> RESOLVED \<and> inc_status new = RESOLVED
               then [mk_event p new ''resolved'' now] else []))"
  using assms(1)
proof (induction known)
  case Nil
  then show ?case by (simp add: events_for_Nil)
next
  case (Cons a known)
  obtain k' old where a: "a = (k', old)" by (cases a)
  from Cons.prems a have d: "distinct (map fst known)" and nk: "k' \<notin> fst ` set known" by auto
  show ?case
  proof (cases "k' = k")
    case True
    with nk have "k \<notin> fst ` set known" by simp
    note r = diff_resolved_other [OF assms(2) this, of "''resolved''" p now]
    have "inc_id new = k" if "map_of current k = Some new" for new
      using wf_snapshot_lookup [OF assms(2) that] .
    then show ?thesis
      unfolding a using True r
      by (auto simp: events_for_Cons events_for_Nil mk_event_def split: option.splits)
  next
    case False
    have "inc_id new \<noteq> k" if "map_of current k' = Some new" for new
      using wf_snapshot_lookup [OF assms(2) that] False by simp
    then show ?thesis
      unfolding a using False Cons.IH [OF d]
      by (auto simp: events_for_Cons mk_event_def split: option.splits)
  qed
qed

lemma diff_and_publish_fields:
  "known_incidents (fst (diff_and_publish now current m)) = current"
  "config (fst (diff_and_publish now current m)) = config m"
  "known_update_ids (fst (diff_and_publish now current m)) = known_update_ids m \<union> all_update_ids current"
  "summary (fst (diff_and_publish now current m)) = summary m"
  "etag (fst (diff_and_publish now current m)) = etag m"
  "last_modified (fst (diff_and_publish now current m)) = last_modified m"
  "last_hash (fst (diff_and_publish now current m)) = last_hash m"
  by (simp_all add: diff_and_publish_def Let_def diff_current_fst)

lemma diff_and_publish_events:
  "events_for ty k (snd (diff_and_publish now current m)) =
     events_for ty k (snd (diff_current (cfg_name (config m)) now (known_incidents m) current
                              (known_update_ids m)))
     @ events_for ty k (diff_resolved (cfg_name (config m)) now current (known_incidents m))"
  by (simp add: diff_and_publish_def Let_def events_for_append)

lemma no_update_for_unknown:
  assumes "wf_snapshot current" and "map_of (known_incidents m) k = None"
  shows "events_for ''incident_update'' k (snd (diff_and_publish now current m)) = []"
proof -
  have r: "events_for ''incident_update'' k
             (diff_resolved (cfg_name (config m)) now current (known_incidents m)) = []"
    by (rule diff_resolved_type) simp
  have "events_for ''incident_update'' k
          (snd (diff_current (cfg_name (config m)) now (known_incidents m) current (known_update_ids m))) = []"
  proof (cases "map_of current k")
    case None
    then have "k \<notin> fst ` set current" by (simp add: map_of_eq_None_iff)
    moreover from assms(1) have "list_all (\<lambda>(k', inc). inc_id inc = k') current"
      by (simp add: wf_snapshot_def)
    ultimately show ?thesis by (rule diff_current_other [rotated])
  next
    case (Some inc)
    with assms(1) obtain pre post where s: "current = pre @ (k, inc) # post"
      by (rule wf_snapshot_split)
    from assms(1) have w: "wf_snapshot (pre @ (k, inc) # post)" unfolding s .
    show ?thesis
      unfolding s
      by (simp only: diff_current_at [OF w] assms(2) if_True)
         (simp add: events_for_Cons events_for_Nil mk_event_def)
  qed
  with r show ?thesis by (simp only: diff_and_publish_events append_Nil)
qed

lemma new_incident_for_unknown:
  assumes "wf_snapshot current" and "map_of (known_incidents m) k = None"
    and "map_of current k = Some inc"
  shows "events_for ''new_incident'' k (snd (diff_and_publish now current m))
           = [mk_event (cfg_name (config m)) inc ''new_incident'' now]"
proof -
  have r: "events_for ''new_incident'' k
             (diff_resolved (cfg_name (config m)) now current (known_incidents m)) = []"
    by (rule diff_resolved_type) simp
  from assms(1,3) obtain pre post where s: "current = pre @ (k, inc) # post"
    by (rule wf_snapshot_split)
  from assms(1) have w: "wf_snapshot (pre @ (k, inc) # post)" unfolding s .
  have i: "inc_id inc = k" using wf_snapshot_at(1) [OF w] .
  show ?thesis
    unfolding s
    by (simp only: diff_and_publish_events diff_resolved_type diff_current_at [OF w] assms(2) if_True)
       (simp add: events_for_Cons events_for_Nil mk_event_def i diff_resolved_type)
qed

lemma run_diffs_append:
  "run_diffs (pre @ rest) m =
     (fst (run_diffs rest (fst (run_diffs pre m))),
      snd (run_diffs pre m) @ snd (run_diffs rest (fst (run_diffs pre m))))"
  by (induction pre arbitrary: m) (auto simp: Let_def)

lemma run_diffs_length: "length (snd (run_diffs ticks m)) = length ticks"
  by (induction ticks arbitrary: m) (auto simp: Let_def)

lemma run_diffs_config: "config (fst (run_diffs ticks m)) = config m"
  by (induction ticks arbitrary: m) (auto simp: Let_def diff_and_publish_fields)

lemma run_diffs_unknown:
  assumes "list_all (\<lambda>(t, s). wf_snapshot s \<and> map_of s k = None) pre"
    and "map_of (known_incidents m) k = None"
  shows "map_of (known_incidents (fst (run_diffs pre m))) k = None
       \<and> list_all (\<lambda>evs. events_for ''incident_update'' k evs = []) (snd (run_diffs pre m))"
  using assms
proof (induction pre arbitrary: m)
  case Nil
  then show ?case by simp
next
  case (Cons a pre)
  obtain t s where a: "a = (t, s)" by (cases a)
  from Cons.prems a have w: "wf_snapshot s" and n: "map_of s k = None"
    and rest: "list_all (\<lambda>(t, s). wf_snapshot s \<and> map_of s k = None) pre" by auto
  have k: "map_of (known_incidents (fst (diff_and_publish t s m))) k = None"
    using n by (simp add: diff_and_publish_fields)
  from Cons.IH [OF rest k] no_update_for_unknown [OF w Cons.prems(2), of t]
  show ?case unfolding a by (simp add: Let_def)
qed

subsection \<open>Updates of a known incident\<close>

text \<open>
  Claim C1, as the code has it. For an incident id \<open>k\<close> of the previous and of the
  current snapshot, the diff computes the update ids of the current incident minus
  the one set of known update ids the monitor keeps for all its incidents (at that
  point of the loop: the set the tick started with and the update ids of the
  incidents of the current snapshot handled before \<open>k\<close>). It publishes exactly one
  \<^verbatim>\<open>incident_update\<close> event with the whole current incident when that difference
  is not empty, none when it is empty, and the known set afterwards is the former
  one and every update id of the current snapshot.
\<close>

theorem C1_incident_update_against_shared_known_set:
  assumes "wf_snapshot (pre @ (k, inc) # post)"
    and "map_of (known_incidents m) k = Some old"
  shows "events_for ''incident_update'' k (snd (diff_and_publish now (pre @ (k, inc) # post) m))
         = (if update_ids inc - (known_update_ids m \<union> all_update_ids pre) \<noteq> {}
            then [mk_event (cfg_name (config m)) inc ''incident_update'' now] else [])
       \<and> known_update_ids (fst (diff_and_publish now (pre @ (k, inc) # post) m))
         = known_update_ids m \<union> all_update_ids (pre @ (k, inc) # post)"
proof -
  have i: "inc_id inc = k" using wf_snapshot_at(1) [OF assms(1)] .
  have r: "events_for ''incident_update'' k
             (diff_resolved (cfg_name (config m)) now (pre @ (k, inc) # post) (known_incidents m)) = []"
    by (rule diff_resolved_type) simp
  have "events_for ''incident_update'' k (snd (diff_and_publish now (pre @ (k, inc) # post) m))
      = events_for ''incident_update'' k
          (if update_ids inc - (known_update_ids m \<union> all_update_ids pre) \<noteq> {}
           then [mk_event (cfg_name (config m)) inc ''incident_update'' now] else [])"
    by (simp only: diff_and_publish_events r append_Nil2 diff_current_at [OF assms(1)])
       (simp add: assms(2))
  also have "\<dots> = (if update_ids inc - (known_update_ids m \<union> all_update_ids pre) \<noteq> {}
            then [mk_event (cfg_name (config m)) inc ''incident_update'' now] else [])"
    by (simp add: events_for_Cons events_for_Nil mk_event_def i)
  finally show ?thesis
    by (simp only: diff_and_publish_fields simp_thms)
qed

text \<open>
  The claim as the specification words it, with a known set per incident, fails:
  incident B gains an update whose id incident A has used. B's own ids so far do
  not hold it, and still no \<^verbatim>\<open>incident_update\<close> event is published for B.
\<close>

theorem C1_shared_update_id_counterexample:
  "update_ids_in shared_id_current ''B'' - known_for [shared_id_previous] ''B'' \<noteq> {}
   \<and> events_for ''incident_update'' ''B''
        (snd (diff_and_publish 1 shared_id_current
               (fst (diff_and_publish 0 shared_id_previous sample_monitor)))) = []"
  by (simp add: update_ids_in_def known_for_def shared_id_current_def shared_id_previous_def
        update_ids_def events_for_def diff_and_publish_def Let_def sample_defs)

theorem C1_scenario2_witness:
  "wf_snapshot ([] @ (''INC1'', sample_incident ''INC1'' IDENTIFIED [''U1'', ''U2'']) # [])
   \<and> map_of (known_incidents (fst (diff_and_publish 0 scenario1 sample_monitor))) ''INC1''
       = Some (sample_incident ''INC1'' INVESTIGATING [''U1''])
   \<and> snd (diff_and_publish 1 scenario2 (fst (diff_and_publish 0 scenario1 sample_monitor)))
       = [mk_event ''P'' (sample_incident ''INC1'' IDENTIFIED [''U1'', ''U2'']) ''incident_update'' 1]
   \<and> events_for ''incident_update'' ''INC1''
        (snd (diff_and_publish 1 scenario2 (fst (diff_and_publish 0 scenario1 sample_monitor))))
       = [mk_event ''P'' (sample_incident ''INC1'' IDENTIFIED [''U1'', ''U2'']) ''incident_update'' 1]"
  using C1_incident_update_against_shared_known_set
          [of "[]" "''INC1''" "sample_incident ''INC1'' IDENTIFIED [''U1'', ''U2'']" "[]"
              "fst (diff_and_publish 0 scenario1 sample_monitor)"
              "sample_incident ''INC1'' INVESTIGATING [''U1'']" 1]
  by (simp add: wf_snapshot_def scenario1_def scenario2_def diff_and_publish_def Let_def
        update_ids_def all_update_ids_def sample_defs)

subsection \<open>Resolution\<close>

text \<open>
  Claim C2. The \<^verbatim>\<open>resolved\<close> events of a tick about an incident id \<open>k\<close> are exactly
  one event, carrying the current incident, when \<open>k\<close> is in the previous snapshot
  with a status other than resolved and in the current one with status resolved,
  and none in every other case (\<open>k\<close> absent from the previous or from the current
  snapshot, or resolved before). Neither the update ids nor the set of known update
  ids enter: the event comes whether or not an \<^verbatim>\<open>incident_update\<close> event is
  published for \<open>k\<close> in the same tick.
\<close>

theorem C2_resolved_event:
  assumes "distinct (map fst (known_incidents m))" and "wf_snapshot current"
  shows "events_for ''resolved'' k (snd (diff_and_publish now current m)) =
     (case map_of (known_incidents m) k of
        None \<Rightarrow> []
      | Some old \<Rightarrow>
          (case map_of current k of
             None \<Rightarrow> []
           | Some new \<Rightarrow>
               if inc_status old \<noteq> RESOLVED \<and> inc_status new = RESOLVED
               then [mk_event (cfg_name (config m)) new ''resolved'' now] else []))"
proof -
  from assms(2) have w: "list_all (\<lambda>(k', inc). inc_id inc = k') current"
    by (simp add: wf_snapshot_def)
  show ?thesis
    by (simp only: diff_and_publish_events diff_current_not_resolved append_Nil
          diff_resolved_events [OF assms(1) w])
qed

theorem C2_scenario3_witness:
  "distinct (map fst (known_incidents (fst (diff_and_publish 0 scenario3_previous sample_monitor))))
   \<and> wf_snapshot scenario3_current
   \<and> snd (diff_and_publish 1 scenario3_current (fst (diff_and_publish 0 scenario3_previous sample_monitor)))
       = [mk_event ''P'' (sample_incident ''INC1'' RESOLVED [''U1'', ''U2'', ''U3'']) ''incident_update'' 1,
          mk_event ''P'' (sample_incident ''INC1'' RESOLVED [''U1'', ''U2'', ''U3'']) ''resolved'' 1]
   \<and> events_for ''resolved'' ''INC1''
        (snd (diff_and_publish 1 scenario3_current
               (fst (diff_and_publish 0 scenario3_previous sample_monitor))))
       = [mk_event ''P'' (sample_incident ''INC1'' RESOLVED [''U1'', ''U2'', ''U3'']) ''resolved'' 1]"
  using C2_resolved_event
          [of "fst (diff_and_publish 0 scenario3_previous sample_monitor)" scenario3_current
              "''INC1''" 1]
  by (simp add: wf_snapshot_def scenario3_previous_def scenario3_current_def diff_and_publish_def
        Let_def update_ids_def sample_defs)

subsection \<open>First appearance of an incident\<close>

text \<open>
  Claim C7. Let the incident id \<open>k\<close> be unknown to the monitor and absent from the
  snapshots of the ticks \<open>pre\<close>, and present in the snapshot of the next tick. That
  tick publishes exactly one \<^verbatim>\<open>new_incident\<close> event for \<open>k\<close>, and no tick up to and
  including it publishes an \<^verbatim>\<open>incident_update\<close> event for \<open>k\<close>: such an event can
  only come in a strictly later tick.
\<close>

theorem C7_new_incident_first:
  assumes "list_all (\<lambda>(t, s). wf_snapshot s \<and> map_of s k = None) pre"
    and "map_of (known_incidents m) k = None"
    and "wf_snapshot current"
    and "map_of current k = Some inc"
  shows "events_for ''new_incident'' k (snd (run_diffs (pre @ (now, current) # post) m) ! length pre)
           = [mk_event (cfg_name (config m)) inc ''new_incident'' now]
       \<and> (\<forall>j \<le> length pre.
             events_for ''incident_update'' k (snd (run_diffs (pre @ (now, current) # post) m) ! j) = [])"
proof -
  let ?m = "fst (run_diffs pre m)"
  let ?evs = "snd (run_diffs (pre @ (now, current) # post) m)"
  note u = run_diffs_unknown [OF assms(1,2)]
  from u have unk: "map_of (known_incidents ?m) k = None" by simp
  have at: "?evs ! length pre = snd (diff_and_publish now current ?m)"
    by (simp add: run_diffs_append nth_append run_diffs_length Let_def)
  have before: "?evs ! j = snd (run_diffs pre m) ! j" if "j < length pre" for j
    using that by (simp add: run_diffs_append nth_append run_diffs_length)
  have a: "events_for ''new_incident'' k (?evs ! length pre)
             = [mk_event (cfg_name (config m)) inc ''new_incident'' now]"
    using new_incident_for_unknown [OF assms(3) unk assms(4), of now]
    by (simp add: at run_diffs_config)
  have b: "events_for ''incident_update'' k (?evs ! j) = []" if "j \<le> length pre" for j
  proof (cases "j < length pre")
    case True
    with u show ?thesis
      by (simp add: before list_all_length run_diffs_length)
  next
    case False
    with that have "j = length pre" by simp
    then show ?thesis
      using no_update_for_unknown [OF assms(3) unk, of now] by (simp add: at)
  qed
  from a b show ?thesis by blast
qed

theorem C7_scenario_witness:
  "list_all (\<lambda>(t, s). wf_snapshot s \<and> map_of s ''INC1'' = None) [(0, [])]
   \<and> map_of (known_incidents sample_monitor) ''INC1'' = None
   \<and> wf_snapshot scenario1
   \<and> map_of scenario1 ''INC1'' = Some (sample_incident ''INC1'' INVESTIGATING [''U1''])
   \<and> snd (run_diffs ([(0, [])] @ (1, scenario1) # [(2, scenario2)]) sample_monitor)
       = [[],
          [mk_event ''P'' (sample_incident ''INC1'' INVESTIGATING [''U1'']) ''new_incident'' 1],
          [mk_event ''P'' (sample_incident ''INC1'' IDENTIFIED [''U1'', ''U2'']) ''incident_update'' 2]]
   \<and> events_for ''new_incident'' ''INC1''
        (snd (run_diffs ([(0, [])] @ (1, scenario1) # [(2, scenario2)]) sample_monitor) ! 1)
       = [mk_event ''P'' (sample_incident ''INC1'' INVESTIGATING [''U1'']) ''new_incident'' 1]"
  using C7_new_incident_first
          [of "''INC1''" "[(0, [])]" sample_monitor scenario1
              "sample_incident ''INC1'' INVESTIGATING [''U1'']" 1 "[(2, scenario2)]"]
  by (simp add: wf_snapshot_def scenario1_def scenario2_def diff_and_publish_def Let_def
        update_ids_def sample_defs)

section \<open>One tick of the poller\<close>

lemma fetch_summary_requests:
  "snd (fetch_summary lib env m) = [(summary_url (config m), [])]"
  by (simp add: fetch_summary_def Let_def split: sum.splits option.splits)

lemma fetch_summary_frame:
  "config (fst (fetch_summary lib env m)) = config m"
  "etag (fst (fetch_summary lib env m)) = etag m"
  "last_modified (fst (fetch_summary lib env m)) = last_modified m"
  "last_hash (fst (fetch_summary lib env m)) = last_hash m"
  "known_incidents (fst (fetch_summary lib env m)) = known_incidents m"
  "known_update_ids (fst (fetch_summary lib env m)) = known_update_ids m"
  "running (fst (fetch_summary lib env m)) = running m"
  by (simp_all add: fetch_summary_def Let_def split: sum.splits option.splits)

lemma fetch_summary_keeps_some:
  "summary m \<noteq> None \<Longrightarrow> summary (fst (fetch_summary lib env m)) \<noteq> None"
  by (simp add: fetch_summary_def Let_def split: sum.splits option.splits)

lemma tick_304:
  assumes "http_get env (incidents_url (config m)) (conditional_headers m) = Inr resp"
    and "status_code resp = 304"
  shows "tick lib env m =
     \<lparr>raised = None, monitor = m, published = [],
      requests = [(incidents_url (config m), conditional_headers m)]\<rparr>"
  using assms by (simp add: tick_def Let_def)

lemma tick_error_status:
  assumes "http_get env (incidents_url (config m)) (conditional_headers m) = Inr resp"
    and "status_code resp \<noteq> 304" and "raise_for_status resp = Some e"
  shows "tick lib env m =
     \<lparr>raised = Some e, monitor = m, published = [],
      requests = [(incidents_url (config m), conditional_headers m)]\<rparr>"
  using assms by (simp add: tick_def Let_def)

lemma tick_same_hash:
  assumes "http_get env (incidents_url (config m)) (conditional_headers m) = Inr resp"
    and "status_code resp \<noteq> 304" and "raise_for_status resp = None"
    and "Some (sha256_hexdigest lib (content resp)) = last_hash m"
  shows "tick lib env m =
     \<lparr>raised = None,
      monitor = m\<lparr>etag := headers resp ''etag'', last_modified := headers resp ''last-modified''\<rparr>,
      published = [],
      requests = [(incidents_url (config m), conditional_headers m)]\<rparr>"
  using assms by (simp add: tick_def Let_def)

lemma tick_json_error:
  assumes "http_get env (incidents_url (config m)) (conditional_headers m) = Inr resp"
    and "status_code resp \<noteq> 304" and "raise_for_status resp = None"
    and "Some (sha256_hexdigest lib (content resp)) \<noteq> last_hash m"
    and "json_loads lib (content resp) = None"
  shows "tick lib env m =
     \<lparr>raised = Some JSONError,
      monitor = m\<lparr>etag := headers resp ''etag'', last_modified := headers resp ''last-modified'',
                  last_hash := Some (sha256_hexdigest lib (content resp))\<rparr>,
      published = [],
      requests = [(incidents_url (config m), conditional_headers m)]\<rparr>"
  using assms by (simp add: tick_def Let_def)

lemma tick_unchanged:
  assumes "http_get env (incidents_url (config m)) (conditional_headers m) = Inr resp"
    and "status_code resp = 304 \<or> Some (sha256_hexdigest lib (content resp)) = last_hash m"
  shows "published (tick lib env m) = []"
    and "requests (tick lib env m) = [(incidents_url (config m), conditional_headers m)]"
    and "known_incidents (monitor (tick lib env m)) = known_incidents m"
    and "known_update_ids (monitor (tick lib env m)) = known_update_ids m"
    and "summary (monitor (tick lib env m)) = summary m"
    and "last_hash (monitor (tick lib env m)) = last_hash m"
proof -
  consider "status_code resp = 304"
    | e where "status_code resp \<noteq> 304" "raise_for_status resp = Some e"
    | "status_code resp \<noteq> 304" "raise_for_status resp = None"
      "Some (sha256_hexdigest lib (content resp)) = last_hash m"
    using assms(2) by (cases "raise_for_status resp") auto
  then have "published (tick lib env m) = []
    \<and> requests (tick lib env m) = [(incidents_url (config m), conditional_headers m)]
    \<and> known_incidents (monitor (tick lib env m)) = known_incidents m
    \<and> known_update_ids (monitor (tick lib env m)) = known_update_ids m
    \<and> summary (monitor (tick lib env m)) = summary m
    \<and> last_hash (monitor (tick lib env m)) = last_hash m"
  proof cases
    case 1
    show ?thesis by (simp add: tick_304 [OF assms(1) 1])
  next
    case 2
    show ?thesis by (simp add: tick_error_status [OF assms(1) 2])
  next
    case 3
    show ?thesis by (simp add: tick_same_hash [OF assms(1) 3])
  qed
  then show "published (tick lib env m) = []"
    and "requests (tick lib env m) = [(incidents_url (config m), conditional_headers m)]"
    and "known_incidents (monitor (tick lib env m)) = known_incidents m"
    and "known_update_ids (monitor (tick lib env m)) = known_update_ids m"
    and "summary (monitor (tick lib env m)) = summary m"
    and "last_hash (monitor (tick lib env m)) = last_hash m"
    by simp_all
qed

lemma tick_unchanged_parser:
  assumes "http_get env (incidents_url (config m)) (conditional_headers m) = Inr resp"
    and "status_code resp = 304 \<or> Some (sha256_hexdigest lib (content resp)) = last_hash m"
  shows "tick (lib\<lparr>json_loads := parser, validate_datetime := dt\<rparr>) env m = tick lib env m"
proof -
  let ?lib = "lib\<lparr>json_loads := parser, validate_datetime := dt\<rparr>"
  have h: "sha256_hexdigest ?lib = sha256_hexdigest lib" by simp
  consider "status_code resp = 304"
    | e where "status_code resp \<noteq> 304" "raise_for_status resp = Some e"
    | "status_code resp \<noteq> 304" "raise_for_status resp = None"
      "Some (sha256_hexdigest lib (content resp)) = last_hash m"
    using assms(2) by (cases "raise_for_status resp") auto
  then show ?thesis
  proof cases
    case 1
    show ?thesis by (simp only: tick_304 [OF assms(1) 1])
  next
    case 2
    show ?thesis by (simp only: tick_error_status [OF assms(1) 2])
  next
    case 3
    from 3(3) have "Some (sha256_hexdigest ?lib (content resp)) = last_hash m" by simp
    note a = tick_same_hash [OF assms(1) 3(1,2) this]
    show ?thesis by (simp only: a tick_same_hash [OF assms(1) 3])
  qed
qed

lemma tick_summary_changed:
  assumes "summary (monitor (tick lib env m)) \<noteq> summary m"
  shows "\<exists>resp. http_get env (incidents_url (config m)) (conditional_headers m) = Inr resp
           \<and> status_code resp \<noteq> 304
           \<and> Some (sha256_hexdigest lib (content resp)) \<noteq> last_hash m"
proof (cases "http_get env (incidents_url (config m)) (conditional_headers m)")
  case (Inl e)
  with assms show ?thesis by (simp add: tick_def Let_def)
next
  case (Inr resp)
  show ?thesis
  proof (rule ccontr)
    assume "\<not> ?thesis"
    with Inr have "status_code resp = 304 \<or> Some (sha256_hexdigest lib (content resp)) = last_hash m"
      by auto
    from tick_unchanged(5) [OF Inr this] assms show False by simp
  qed
qed

lemma tick_keeps_summary:
  assumes "summary m \<noteq> None"
  shows "summary (monitor (tick lib env m)) \<noteq> None"
proof -
  have "summary (fst (fetch_summary lib env (fst (diff_and_publish t cur (m'::StatusPageMonitor))))) \<noteq> None"
    if "summary m' = summary m" for t cur m'
    using that assms
    by (intro fetch_summary_keeps_some) (simp add: diff_and_publish_def Let_def)
  then have k: "\<exists>y. summary (fst (fetch_summary lib env (fst (diff_and_publish t cur (m'::StatusPageMonitor))))) = Some y"
    if "summary m' = summary m" for t cur m'
    using that by simp
  show ?thesis
    using assms
    by (simp add: tick_def Let_def k split: sum.splits option.splits)
qed

lemma run_loop_keeps_summary:
  "summary m \<noteq> None \<Longrightarrow> summary (fst (run_loop lib envs m)) \<noteq> None"
proof (induction envs arbitrary: m)
  case Nil
  then show ?case by simp
next
  case (Cons a envs)
  obtain env stop_called where a: "a = (env, stop_called)" by (cases a)
  have "summary (if stop_called then stop (monitor (tick lib env m)) else monitor (tick lib env m)) \<noteq> None"
    using tick_keeps_summary [OF Cons.prems, of lib env] by (simp add: stop_def)
  from Cons.IH [OF this] Cons.prems show ?case
    unfolding a by (simp add: Let_def)
qed

lemmas sample_tick_defs = sample_monitor_def StatusPageMonitor_def ProviderConfig_def
  sample_library_def sample_response_def sample_env_def sample_summary_def
  incidents_url_def summary_url_def conditional_headers_def raise_for_status_def

subsection \<open>Unchanged fetches\<close>

text \<open>
  Claim C4. A tick whose fetch is answered with 304, or with a body whose digest is
  the stored one, publishes no event and leaves the known incidents and the known
  update ids as they were; its result is the same whatever the JSON decoder and the
  datetime validation would compute, so nothing is parsed. After a 304 the whole
  monitor, with its ETag and Last-Modified validators, is unchanged.
\<close>

theorem C4_unchanged_fetch_publishes_nothing:
  assumes "http_get env (incidents_url (config m)) (conditional_headers m) = Inr resp"
    and "status_code resp = 304 \<or> Some (sha256_hexdigest lib (content resp)) = last_hash m"
  shows "published (tick lib env m) = []
       \<and> known_incidents (monitor (tick lib env m)) = known_incidents m
       \<and> known_update_ids (monitor (tick lib env m)) = known_update_ids m
       \<and> tick (lib\<lparr>json_loads := parser, validate_datetime := dt\<rparr>) env m = tick lib env m
       \<and> (status_code resp = 304 \<longrightarrow> monitor (tick lib env m) = m)"
proof -
  have "monitor (tick lib env m) = m" if "status_code resp = 304"
    by (simp add: tick_304 [OF assms(1) that])
  then show ?thesis
    using tick_unchanged(1,3,4) [OF assms] tick_unchanged_parser [OF assms, where parser = parser and dt = dt]
    by simp
qed

theorem C4_not_modified_witness:
  "http_get (sample_env 304 []) (incidents_url (config sample_monitor))
       (conditional_headers sample_monitor) = Inr (sample_response 304 [])
   \<and> status_code (sample_response 304 []) = 304
   \<and> published (tick sample_library (sample_env 304 []) sample_monitor) = []
   \<and> monitor (tick sample_library (sample_env 304 []) sample_monitor) = sample_monitor"
  using C4_unchanged_fetch_publishes_nothing
          [of "sample_env 304 []" sample_monitor "sample_response 304 []" sample_library]
  by (simp add: sample_env_def sample_response_def)

subsection \<open>A body that does not decode\<close>

text \<open>
  Claim C9. Let a tick receive a 2xx response with a new body that the JSON decoder
  rejects. The tick ends with the decoder's exception and publishes nothing, the
  known incidents and known update ids are unchanged, but ETag, Last-Modified and
  the content hash are those of this response. A next tick that receives the same
  bytes publishes nothing and leaves the known incidents alone; the loop of
  \<^verbatim>\<open>start\<close> catches the exception and runs that next tick.
\<close>

theorem C9_validators_committed_before_parsing:
  assumes "http_get env (incidents_url (config m)) (conditional_headers m) = Inr resp"
    and "200 \<le> status_code resp \<and> status_code resp \<le> 299"
    and "Some (sha256_hexdigest lib (content resp)) \<noteq> last_hash m"
    and "json_loads lib (content resp) = None"
    and "http_get env' (incidents_url (config m)) (conditional_headers (monitor (tick lib env m)))
           = Inr resp'"
    and "content resp' = content resp"
  shows "raised (tick lib env m) = Some JSONError
       \<and> published (tick lib env m) = []
       \<and> etag (monitor (tick lib env m)) = headers resp ''etag''
       \<and> last_modified (monitor (tick lib env m)) = headers resp ''last-modified''
       \<and> last_hash (monitor (tick lib env m)) = Some (sha256_hexdigest lib (content resp))
       \<and> known_incidents (monitor (tick lib env m)) = known_incidents m
       \<and> known_update_ids (monitor (tick lib env m)) = known_update_ids m
       \<and> published (tick lib env' (monitor (tick lib env m))) = []
       \<and> known_incidents (monitor (tick lib env' (monitor (tick lib env m)))) = known_incidents m
       \<and> (running m \<longrightarrow>
            map published (snd (run_loop lib [(env, False), (env', False)] m)) = [[], []])"
proof -
  let ?m1 = "monitor (tick lib env m)"
  from assms(2) have s: "status_code resp \<noteq> 304" and r: "raise_for_status resp = None"
    by (simp_all add: raise_for_status_def)
  note t1 = tick_json_error [OF assms(1) s r assms(3,4)]
  have c: "config ?m1 = config m" and h: "last_hash ?m1 = Some (sha256_hexdigest lib (content resp))"
    and run: "running ?m1 = running m"
    by (simp_all add: t1)
  have g: "http_get env' (incidents_url (config ?m1)) (conditional_headers ?m1) = Inr resp'"
    using assms(5) by (simp only: c)
  have e: "status_code resp' = 304 \<or> Some (sha256_hexdigest lib (content resp')) = last_hash ?m1"
    by (simp add: h assms(6))
  note t2 = tick_unchanged(1,3) [OF g e]
  have first: "raised (tick lib env m) = Some JSONError \<and> published (tick lib env m) = []
       \<and> etag ?m1 = headers resp ''etag''
       \<and> last_modified ?m1 = headers resp ''last-modified''
       \<and> last_hash ?m1 = Some (sha256_hexdigest lib (content resp))
       \<and> known_incidents ?m1 = known_incidents m
       \<and> known_update_ids ?m1 = known_update_ids m"
    by (simp add: t1)
  have second: "published (tick lib env' ?m1) = []
       \<and> known_incidents (monitor (tick lib env' ?m1)) = known_incidents m"
    using t2 first by simp
  have loop: "map published (snd (run_loop lib [(env, False), (env', False)] m)) = [[], []]"
    if "running m"
    using that run first second by (simp add: Let_def)
  from first second loop show ?thesis by blast
qed

theorem C9_undecodable_body_witness:
  "http_get (sample_env 200 ''<html>'') (incidents_url (config sample_monitor))
       (conditional_headers sample_monitor) = Inr (sample_response 200 ''<html>'')
   \<and> (200 \<le> status_code (sample_response 200 ''<html>'')
        \<and> status_code (sample_response 200 ''<html>'') \<le> 299)
   \<and> Some (sha256_hexdigest sample_library (content (sample_response 200 ''<html>'')))
        \<noteq> last_hash sample_monitor
   \<and> json_loads sample_library (content (sample_response 200 ''<html>'')) = None
   \<and> etag (monitor (tick sample_library (sample_env 200 ''<html>'') sample_monitor)) = Some ''W/1''
   \<and> last_hash (monitor (tick sample_library (sample_env 200 ''<html>'') sample_monitor))
        = Some ''<html>''
   \<and> published (tick sample_library (sample_env 200 ''<html>'')
        (monitor (tick sample_library (sample_env 200 ''<html>'') sample_monitor))) = []"
  using C9_validators_committed_before_parsing
          [of "sample_env 200 ''<html>''" sample_monitor "sample_response 200 ''<html>''"
              sample_library "sample_env 200 ''<html>''" "sample_response 200 ''<html>''"]
  by (simp add: sample_env_def sample_response_def sample_library_def sample_monitor_def
        StatusPageMonitor_def)

subsection \<open>The summary is fetched after a changed body only\<close>

text \<open>
  Claim C10. A tick that stops at a 304 or at an unchanged content hash sends the
  incidents request and no other, and leaves the cached summary untouched. A tick
  that changes the cached summary has received a response other than 304 whose
  body digest differs from the stored hash.
\<close>

theorem C10_short_circuit_skips_summary:
  "(\<forall>resp. http_get env (incidents_url (config m)) (conditional_headers m) = Inr resp
        \<and> (status_code resp = 304 \<or> Some (sha256_hexdigest lib (content resp)) = last_hash m)
      \<longrightarrow> requests (tick lib env m) = [(incidents_url (config m), conditional_headers m)]
          \<and> summary (monitor (tick lib env m)) = summary m)
   \<and> (summary (monitor (tick lib env m)) \<noteq> summary m
      \<longrightarrow> (\<exists>resp. http_get env (incidents_url (config m)) (conditional_headers m) = Inr resp
                 \<and> status_code resp \<noteq> 304
                 \<and> Some (sha256_hexdigest lib (content resp)) \<noteq> last_hash m))"
  using tick_unchanged(2,5) [of env m _ lib] tick_summary_changed [of lib env m]
  by blast

theorem C10_same_body_witness:
  "http_get (sample_env 200 ''{}'') (incidents_url (config (sample_monitor\<lparr>last_hash := Some ''{}''\<rparr>)))
       (conditional_headers (sample_monitor\<lparr>last_hash := Some ''{}''\<rparr>))
     = Inr (sample_response 200 ''{}'')
   \<and> Some (sha256_hexdigest sample_library (content (sample_response 200 ''{}'')))
       = last_hash (sample_monitor\<lparr>last_hash := Some ''{}''\<rparr>)
   \<and> requests (tick sample_library (sample_env 200 ''{}'') (sample_monitor\<lparr>last_hash := Some ''{}''\<rparr>))
       = [(''https://status.example/api/v2/incidents.json'', [])]
   \<and> summary (monitor (tick sample_library (sample_env 200 ''{}'')
                          (sample_monitor\<lparr>last_hash := Some ''{}''\<rparr>))) = None
   \<and> requests (tick sample_library (sample_env 200 ''{}'') sample_monitor)
       = [(''https://status.example/api/v2/incidents.json'', []),
          (''https://status.example/api/v2/summary.json'', [])]
   \<and> summary (monitor (tick sample_library (sample_env 200 ''{}'') sample_monitor)) \<noteq> None"
  using C10_short_circuit_skips_summary
          [of "sample_env 200 ''{}''" "sample_monitor\<lparr>last_hash := Some ''{}''\<rparr>" sample_library]
  by (simp add: sample_tick_defs rstrip_slash_def tick_def Let_def parse_incidents_def
        diff_and_publish_def fetch_summary_def build_summary_def attempt_def List.map_filter_def)

lemma build_summary_fails:
  "raise_for_status resp \<noteq> None \<Longrightarrow> build_summary lib now m resp = None"
  "json_loads lib (content resp) = None \<Longrightarrow> build_summary lib now m resp = None"
  by (auto simp: build_summary_def split: option.splits)

subsection \<open>A failed summary fetch\<close>

text \<open>
  Claim C6. When the summary request raises, or its response has a status outside
  2xx, or its body does not decode, or anything else in the \<^verbatim>\<open>try\<close> block raises,
  \<^verbatim>\<open>_fetch_summary\<close> leaves the monitor, and with it the cached summary, exactly as
  it was. A cached summary never goes back to \<^verbatim>\<open>None\<close>: not in \<^verbatim>\<open>_fetch_summary\<close>,
  and not over any number of ticks of the polling loop.
\<close>

theorem C6_summary_kept_on_failure:
  "(\<forall>e. http_get env (summary_url (config m)) [] = Inl e \<longrightarrow> fst (fetch_summary lib env m) = m)
   \<and> (\<forall>resp. http_get env (summary_url (config m)) [] = Inr resp
          \<and> (status_code resp < 200 \<or> 299 < status_code resp
              \<or> json_loads lib (content resp) = None
              \<or> build_summary lib (now_summary env) m resp = None)
        \<longrightarrow> fst (fetch_summary lib env m) = m)
   \<and> (summary m \<noteq> None \<longrightarrow> summary (fst (fetch_summary lib env m)) \<noteq> None)
   \<and> (summary m \<noteq> None \<longrightarrow> summary (fst (run_loop lib envs m)) \<noteq> None)"
proof -
  have a: "fst (fetch_summary lib env m) = m"
    if "http_get env (summary_url (config m)) [] = Inl e" for e
    using that by (simp add: fetch_summary_def Let_def)
  have b: "fst (fetch_summary lib env m) = m"
    if g: "http_get env (summary_url (config m)) [] = Inr resp"
      and f: "status_code resp < 200 \<or> 299 < status_code resp
              \<or> json_loads lib (content resp) = None
              \<or> build_summary lib (now_summary env) m resp = None" for resp
  proof -
    from f have "build_summary lib (now_summary env) m resp = None"
    proof (elim disjE)
      assume "status_code resp < 200"
      then have "raise_for_status resp \<noteq> None" by (simp add: raise_for_status_def)
      then show ?thesis by (rule build_summary_fails)
    next
      assume "299 < status_code resp"
      then have "raise_for_status resp \<noteq> None" by (simp add: raise_for_status_def)
      then show ?thesis by (rule build_summary_fails)
    next
      assume "json_loads lib (content resp) = None"
      then show ?thesis by (rule build_summary_fails)
    qed
    with g show ?thesis by (simp add: fetch_summary_def Let_def)
  qed
  from a b fetch_summary_keeps_some [of m lib env] run_loop_keeps_summary [of m lib envs]
  show ?thesis by blast
qed

theorem C6_server_error_witness:
  "http_get (sample_env 503 []) (summary_url (config (sample_monitor\<lparr>summary := Some sample_summary, running := True\<rparr>))) []
     = Inr (sample_response 503 [])
   \<and> 299 < status_code (sample_response 503 [])
   \<and> summary (sample_monitor\<lparr>summary := Some sample_summary, running := True\<rparr>) \<noteq> None
   \<and> fst (fetch_summary sample_library (sample_env 503 [])
            (sample_monitor\<lparr>summary := Some sample_summary, running := True\<rparr>))
       = sample_monitor\<lparr>summary := Some sample_summary, running := True\<rparr>
   \<and> summary (fst (run_loop sample_library [(sample_env 503 [], False)]
                     (sample_monitor\<lparr>summary := Some sample_summary, running := True\<rparr>)))
       \<noteq> None"
  using C6_summary_kept_on_failure
          [of "sample_env 503 []" "sample_monitor\<lparr>summary := Some sample_summary, running := True\<rparr>"
              sample_library "[(sample_env 503 [], False)]"]
  by (simp add: sample_env_def sample_response_def)

section \<open>Fan-out on the event bus\<close>

lemmas sample_bus_defs = sample_bus_def EventBus_def subscribe_def unsubscribe_def publish_def
  deliver_def put_nowait_def get_nowait_def full_def fire_callback_def gather_def
  Subscription_def Queue_def queue_ok_def Let_def

lemma deliver_tail:
  assumes "queue_ok sub"
  shows "items (queue (fst (deliver sub event))) \<noteq> []
       \<and> last (items (queue (fst (deliver sub event)))) = event
       \<and> fst (snd (deliver sub event)) = None"
  using assms
  by (auto simp: queue_ok_def deliver_def put_nowait_def get_nowait_def full_def Let_def
           split: list.splits sum.splits)

lemma publish_keys: "map fst (fst (publish event bus)) = map fst bus"
  by (simp add: publish_def Let_def)

lemma publish_nth:
  "i < length bus \<Longrightarrow>
     fst (publish event bus) ! i = (fst (bus ! i), fst (deliver (snd (bus ! i)) event))"
  by (cases "bus = []") (simp_all add: publish_def Let_def)

lemma publish_never_raises: "fst (snd (publish event bus)) = None"
  by (simp add: publish_def Let_def gather_def)

text \<open>
  Claim C5. \<^verbatim>\<open>publish\<close> raises nothing, whatever the deliveries do, and keeps the
  subscribers it found. Each subscriber of the snapshot ends in the state its own
  \<^verbatim>\<open>deliver\<close> gives it, which no other subscriber enters; when its queue respects
  its bound, the event is the newest entry of its queue afterwards. So a callback
  that raises or a full queue at one subscriber takes the event from no other.
\<close>

theorem C5_delivery_isolated:
  "fst (snd (publish event bus)) = None
   \<and> map fst (fst (publish event bus)) = map fst bus
   \<and> (\<forall>i < length bus.
         snd (fst (publish event bus) ! i) = fst (deliver (snd (bus ! i)) event)
         \<and> (queue_ok (snd (bus ! i)) \<longrightarrow>
              items (queue (snd (fst (publish event bus) ! i))) \<noteq> []
              \<and> last (items (queue (snd (fst (publish event bus) ! i)))) = event))"
  using deliver_tail by (simp add: publish_never_raises publish_keys publish_nth)

theorem C5_raising_callback_and_full_queue_witness:
  "1 < length sample_bus
   \<and> queue_ok (snd (sample_bus ! 1))
   \<and> map (\<lambda>kv. (fst kv, items (queue (snd kv)))) sample_bus
       = [(''a'', [sample_event ''1'']), (''b'', [sample_event ''1''])]
   \<and> map (\<lambda>kv. (fst kv, items (queue (snd kv)))) (fst (publish (sample_event ''2'') sample_bus))
       = [(''a'', [sample_event ''2'']), (''b'', [sample_event ''1'', sample_event ''2''])]
   \<and> snd (publish (sample_event ''2'') sample_bus)
       = (None, [DroppedOldest ''a'', CallbackFailed ''a''])
   \<and> last (items (queue (snd (fst (publish (sample_event ''2'') sample_bus) ! 1))))
       = sample_event ''2''"
  using C5_delivery_isolated [of "sample_event ''2''" sample_bus]
  by (simp add: sample_bus_defs)

lemma publish_map_of:
  "map_of (fst (publish event bus)) k = map_option (\<lambda>sub. fst (deliver sub event)) (map_of bus k)"
proof -
  have "fst (publish event bus) = map (\<lambda>(k, sub). (k, fst (deliver sub event))) bus"
  proof (cases "bus = []")
    case True
    then show ?thesis by (simp add: publish_def)
  next
    case False
    have "zip (map fst bus) (map (\<lambda>kv. fst (deliver (snd kv) event)) bus)
            = map (\<lambda>(k, sub). (k, fst (deliver sub event))) bus"
      by (induction bus) auto
    with False show ?thesis by (simp add: publish_def Let_def comp_def)
  qed
  then show ?thesis by (simp add: map_of_map)
qed

lemma subseq_tl: "subseq xs ys \<Longrightarrow> subseq (tl xs) ys"
  by (cases xs) (auto dest: subseq_Cons')

lemma deliver_subseq:
  assumes "subseq (items (queue sub)) evs"
  shows "subseq (items (queue (fst (deliver sub event)))) (evs @ [event])"
proof -
  have a: "subseq (items (queue sub) @ [event]) (evs @ [event])"
    using assms by (simp add: list_emb_append_mono)
  have b: "subseq (tl (items (queue sub)) @ [event]) (evs @ [event])"
    using subseq_tl [OF assms] by (simp add: list_emb_append_mono)
  have c: "subseq (tl (items (queue sub))) (evs @ [event])"
    using subseq_tl [OF assms] by (rule subseq_rev_drop_many)
  have d: "subseq (items (queue sub)) (evs @ [event])"
    using assms by (rule subseq_rev_drop_many)
  from a b c d show ?thesis
    by (auto simp: deliver_def put_nowait_def get_nowait_def Let_def
             split: list.splits sum.splits if_splits)
qed

lemma consume_subseq:
  "subseq (items (queue sub)) evs \<Longrightarrow> subseq (items (queue (consume sub))) evs"
  by (auto simp: consume_def get_nowait_def split: list.splits dest: subseq_Cons')

lemma bus_step_queued_from:
  assumes "queued_from bus k evs"
  shows "queued_from (bus_step op bus) k (evs @ published_in [op])"
proof (cases op)
  case (Subscribe uuid cb n)
  then show ?thesis
    using assms
    by (auto simp: queued_from_def subscribe_def Let_def update_conv' Subscription_def Queue_def)
next
  case (Unsubscribe k')
  then show ?thesis
    using assms by (auto simp: queued_from_def unsubscribe_def delete_conv')
next
  case (Publish event)
  then show ?thesis
    using assms by (auto simp: queued_from_def publish_map_of dest: deliver_subseq)
next
  case (Consume k')
  then show ?thesis
    using assms
    by (auto simp: queued_from_def map_of_map_entry split: option.splits if_splits
             dest: consume_subseq)
qed

lemma published_in_Cons: "published_in (op # ops) = published_in [op] @ published_in ops"
  by (cases op) simp_all

lemma run_bus_queued_from:
  "queued_from bus k evs \<Longrightarrow> queued_from (run_bus ops bus) k (evs @ published_in ops)"
proof (induction ops arbitrary: bus evs)
  case Nil
  then show ?case by simp
next
  case (Cons op ops)
  from Cons.IH [OF bus_step_queued_from [OF Cons.prems, of op]]
  show ?case by (simp add: published_in_Cons [of op ops])
qed

text \<open>
  Claim C8. The subscription that \<^verbatim>\<open>subscribe\<close> returns has an empty queue and is
  the one filed under its id; \<^verbatim>\<open>publish\<close> delivers to the subscribers in the map and
  adds none. Hence after any further operations on the bus, what the queue of that
  subscription holds is taken, in order, from the events published after it
  subscribed.
\<close>

theorem C8_nothing_from_before_subscription:
  "items (queue (fst (subscribe uuid cb n bus))) = []
   \<and> map_of (snd (subscribe uuid cb n bus)) uuid = Some (fst (subscribe uuid cb n bus))
   \<and> map fst (fst (publish event bus)) = map fst bus
   \<and> (\<forall>sub. map_of (run_bus ops (snd (subscribe uuid cb n bus))) uuid = Some sub
          \<longrightarrow> subseq (items (queue sub)) (published_in ops))"
proof -
  have "queued_from (snd (subscribe uuid cb n bus)) uuid []"
    by (simp add: queued_from_def subscribe_def Let_def update_conv' Subscription_def Queue_def)
  from run_bus_queued_from [OF this, of ops]
  have "\<forall>sub. map_of (run_bus ops (snd (subscribe uuid cb n bus))) uuid = Some sub
          \<longrightarrow> subseq (items (queue sub)) (published_in ops)"
    by (simp add: queued_from_def)
  then show ?thesis
    by (simp add: publish_keys subscribe_def Let_def update_conv' Subscription_def Queue_def)
qed

theorem C8_late_subscriber_witness:
  "map_of (run_bus [Publish (sample_event ''3'')]
             (snd (subscribe ''c'' None 2 (fst (publish (sample_event ''2'') sample_bus))))) ''c''
     = Some ((Subscription ''c'' None 2)\<lparr>queue := \<lparr>maxsize = 2, items = [sample_event ''3'']\<rparr>\<rparr>)
   \<and> subseq (items (queue ((Subscription ''c'' None 2)\<lparr>queue := \<lparr>maxsize = 2, items = [sample_event ''3'']\<rparr>\<rparr>)))
        (published_in [Publish (sample_event ''3'')])"
  using C8_nothing_from_before_subscription
          [of "''c''" None 2 "fst (publish (sample_event ''2'') sample_bus)" "sample_event ''3''"
              "[Publish (sample_event ''3'')]"]
  by (simp add: sample_bus_defs)

section \<open>States the program can reach\<close>

text \<open>
  The theorems above assume snapshots that are dicts keyed by incident id and queues
  within their bound. Both hold of everything the program builds: of every snapshot
  \<^verbatim>\<open>_parse_incidents\<close> returns, hence of the known incidents after every tick, and
  of every queue on a bus, whatever is subscribed, published and consumed.
\<close>

lemma wf_snapshot_update:
  assumes "wf_snapshot snap"
  shows "wf_snapshot (AList.update (inc_id inc) inc snap)"
proof -
  from assms have d: "distinct (map fst snap)"
    and l: "\<forall>(k, i) \<in> set snap. inc_id i = k"
    by (simp_all add: wf_snapshot_def list_all_iff)
  have "set (AList.update (inc_id inc) inc snap) \<subseteq> insert (inc_id inc, inc) (set snap)"
    by (induction snap) auto
  with l have "\<forall>(k, i) \<in> set (AList.update (inc_id inc) inc snap). inc_id i = k"
    by auto
  with d show ?thesis
    by (simp add: wf_snapshot_def list_all_iff distinct_update)
qed

lemma parse_items_wf:
  "wf_snapshot result \<Longrightarrow> parse_items dt raw_items result = Inr snap \<Longrightarrow> wf_snapshot snap"
proof (induction raw_items arbitrary: result)
  case Nil
  then show ?case by simp
next
  case (Cons item rest)
  show ?case
  proof (cases "parse_incident dt item")
    case None
    with Cons.prems(2) have "parse_items dt rest result = Inr snap"
      by (simp split: sum.splits)
    from Cons.IH [OF Cons.prems(1) this] show ?thesis .
  next
    case (Some inc)
    with Cons.prems(2)
    have "parse_items dt rest (AList.update (inc_id inc) inc result) = Inr snap" by simp
    from Cons.IH [OF wf_snapshot_update [OF Cons.prems(1)] this] show ?thesis .
  qed
qed

lemma parse_incidents_wf:
  assumes "parse_incidents dt raw = Inr snap"
  shows "wf_snapshot snap"
proof -
  have e: "wf_snapshot []" by (simp add: wf_snapshot_def)
  from assms obtain raw_items where "parse_items dt raw_items [] = Inr snap"
    by (auto simp: parse_incidents_def split: sum.splits)
  from parse_items_wf [OF e this] show ?thesis .
qed

lemma tick_known_incidents_wf:
  assumes "wf_snapshot (known_incidents m)"
  shows "wf_snapshot (known_incidents (monitor (tick lib env m)))"
proof -
  have "known_incidents (fst (fetch_summary lib env m')) = known_incidents m'" for m'
    by (simp add: fetch_summary_def Let_def split: sum.splits option.splits)
  then show ?thesis
    using assms
    by (auto simp: tick_def Let_def diff_and_publish_def
             split: sum.splits option.splits dest: parse_incidents_wf)
qed

lemma deliver_queue_ok: "queue_ok sub \<Longrightarrow> queue_ok (fst (deliver sub event))"
  by (auto simp: queue_ok_def deliver_def put_nowait_def get_nowait_def full_def Let_def
           split: list.splits sum.splits)

lemma consume_queue_ok: "queue_ok sub \<Longrightarrow> queue_ok (consume sub)"
  by (auto simp: queue_ok_def consume_def get_nowait_def split: list.splits)

lemma Subscription_queue_ok: "queue_ok (Subscription uuid cb n)"
  by (simp add: queue_ok_def Subscription_def Queue_def) arith

lemma bus_step_queue_ok:
  assumes "list_all (\<lambda>kv. queue_ok (snd kv)) bus"
  shows "list_all (\<lambda>kv. queue_ok (snd kv)) (bus_step op bus)"
proof (cases op)
  case (Subscribe uuid cb n)
  have "set (AList.update k v xs) \<subseteq> insert (k, v) (set xs)" for k :: string and v :: Subscription and xs
    by (induction xs) auto
  with assms Subscribe show ?thesis
    by (fastforce simp: list_all_iff subscribe_def Let_def Subscription_queue_ok)
next
  case (Unsubscribe k)
  with assms show ?thesis
    by (auto simp: list_all_iff unsubscribe_def AList.delete_eq)
next
  case (Publish event)
  have "fst (publish event bus) = map (\<lambda>kv. (fst kv, fst (deliver (snd kv) event))) bus"
  proof (cases "bus = []")
    case True
    then show ?thesis by (simp add: publish_def)
  next
    case False
    have "zip (map fst bus) (map (\<lambda>kv. fst (deliver (snd kv) event)) bus)
            = map (\<lambda>kv. (fst kv, fst (deliver (snd kv) event))) bus"
      by (induction bus) auto
    with False show ?thesis by (simp add: publish_def Let_def comp_def)
  qed
  with assms Publish show ?thesis
    by (auto simp: list_all_iff deliver_queue_ok)
next
  case (Consume k)
  have "list_all (\<lambda>kv. queue_ok (snd kv)) (AList.map_entry k consume xs)"
    if "list_all (\<lambda>kv. queue_ok (snd kv)) xs" for xs
    using that by (induction xs) (auto simp: consume_queue_ok)
  with assms Consume show ?thesis by simp
qed

lemma run_bus_queue_ok:
  "list_all (\<lambda>kv. queue_ok (snd kv)) bus \<Longrightarrow> list_all (\<lambda>kv. queue_ok (snd kv)) (run_bus ops bus)"
  by (induction ops arbitrary: bus) (auto dest: bus_step_queue_ok)

end
